theory Spec2Isabelle
  imports Complex_Main "HOL-Library.Word"
begin

unbundle bit_operations_syntax

section \<open>Machine types and protocol constants\<close>

text \<open>
  The C and C++ sources work on fixed-width integers and byte buffers. A byte buffer
  handed over as pointer plus length is a list whose length is that length;
  \<open>uint8_t\<close>, \<open>uint16_t\<close> and \<open>uint32_t\<close> are words, and \<open>int16_t\<close>/\<open>int32_t\<close> are
  words read in two's complement.
\<close>

type_synonym u8 = "8 word"
type_synonym u16 = "16 word"
type_synonym u32 = "32 word"

text \<open>Constants of \<open>shared_driver/include/psoc_driver/protocol.h\<close>.\<close>

definition TOTAL_BLOCKS :: nat where
  "TOTAL_BLOCKS = 1800"

definition BLOCK_SIZE :: nat where
  "BLOCK_SIZE = 7168"

definition ACK_INTERVAL :: nat where
  "ACK_INTERVAL = 20"

definition SAMPLES_PER_WAVEFORM :: nat where
  "SAMPLES_PER_WAVEFORM = 2376"

definition WAVEFORM_HEADER_SIZE :: nat where
  "WAVEFORM_HEADER_SIZE = 38"

text \<open>
  Little-endian assembly of bytes, as the receiver writes it:
  \<open>data[0] | (data[1] << 8)\<close> and its four-byte form.
\<close>

definition u16_le :: "u8 \<Rightarrow> u8 \<Rightarrow> u16" where
  "u16_le b0 b1 = ucast b0 OR push_bit 8 (ucast b1)"

definition u32_le :: "u8 \<Rightarrow> u8 \<Rightarrow> u8 \<Rightarrow> u8 \<Rightarrow> u32" where
  "u32_le b0 b1 b2 b3 =
     ucast b0 OR push_bit 8 (ucast b1) OR push_bit 16 (ucast b2) OR push_bit 24 (ucast b3)"

section \<open>CRC-32 (\<open>crc32.cpp\<close>)\<close>

text \<open>
  One round of the inner \<open>k\<close> loop:
  \<open>if (crc & 1) crc = (crc >> 1) ^ 0xEDB88320; else crc >>= 1;\<close>
\<close>

definition crc32_round :: "u32 \<Rightarrow> u32" where
  "crc32_round crc =
     (if crc AND 1 \<noteq> 0 then drop_bit 1 crc XOR 0xEDB88320 else drop_bit 1 crc)"

text \<open>\<open>crc ^= byte\<close> followed by the eight rounds.\<close>

definition crc32_byte :: "u32 \<Rightarrow> u8 \<Rightarrow> u32" where
  "crc32_byte crc b = (crc32_round ^^ 8) (crc XOR ucast b)"

definition calculate_crc32_data :: "u8 list \<Rightarrow> u32" where
  "calculate_crc32_data data = NOT (foldl crc32_byte 0xFFFFFFFF data)"

text \<open>
  \<open>calculate_crc32_samples\<close> splits each \<open>int32_t\<close> sample into the three bytes
  \<open>sample & 0xFF\<close>, \<open>(sample >> 8) & 0xFF\<close>, \<open>(sample >> 16) & 0xFF\<close> (the shift of a
  signed value is arithmetic) and runs the same byte update over them.
\<close>

definition sample_bytes :: "u32 \<Rightarrow> u8 list" where
  "sample_bytes sample =
     [ucast (sample AND 0xFF),
      ucast (signed_drop_bit 8 sample AND 0xFF),
      ucast (signed_drop_bit 16 sample AND 0xFF)]"

definition calculate_crc32_samples :: "u32 list \<Rightarrow> u32" where
  "calculate_crc32_samples samples =
     NOT (foldl (\<lambda>crc sample. foldl crc32_byte crc (sample_bytes sample)) 0xFFFFFFFF samples)"

section \<open>Decompression and delta decoding (\<open>compression.cpp\<close>)\<close>

text \<open>
  \<open>uncompress\<close> belongs to zlib, not to this repository. The model takes the
  decoder of zlib streams as a parameter \<open>inflate\<close> (\<open>None\<close> for a corrupt or truncated
  stream) and follows zlib's documented contract for the fixed destination buffer:
  \<open>Z_OK\<close> with the number of bytes written when the output fits, \<open>Z_BUF_ERROR\<close> when
  it does not, \<open>Z_DATA_ERROR\<close> for bad input.
\<close>

datatype zlib_result = Z_OK | Z_BUF_ERROR | Z_DATA_ERROR

definition uncompress :: "(u8 list \<Rightarrow> u8 list option) \<Rightarrow> nat \<Rightarrow> u8 list \<Rightarrow> zlib_result \<times> u8 list" where
  "uncompress inflate dest_len source =
     (case inflate source of
        None \<Rightarrow> (Z_DATA_ERROR, [])
      | Some out \<Rightarrow> if length out \<le> dest_len then (Z_OK, out) else (Z_BUF_ERROR, take dest_len out))"

text \<open>
  The delta loop of \<open>decompress_waveform\<close>: for \<open>i\<close> from the given index up to 2376,
  read the little-endian \<open>int16_t\<close> at \<open>2 * i\<close>, add it (sign-extended) to
  \<open>prev_sample\<close> and store the sum as sample \<open>i\<close>.
\<close>

function delta_loop :: "u8 list \<Rightarrow> nat \<Rightarrow> u32 \<Rightarrow> u32 list" where
  "delta_loop buf i prev_sample =
     (if i < 2376
      then (let delta = u16_le (buf ! (i * 2)) (buf ! (i * 2 + 1));
                prev_sample' = prev_sample + scast delta
            in prev_sample' # delta_loop buf (i + 1) prev_sample')
      else [])"
  by pat_completeness auto
termination
  by (relation "measure (\<lambda>(buf, i, prev_sample). 2376 - i)") auto

declare delta_loop.simps [simp del]

definition decompress_waveform :: "(u8 list \<Rightarrow> u8 list option) \<Rightarrow> u8 list \<Rightarrow> u32 list option" where
  "decompress_waveform inflate compressed_data =
     (let expected_decompressed_size = 2376 * 2;
          (result, decompressed_buffer) = uncompress inflate expected_decompressed_size compressed_data
      in if result \<noteq> Z_OK \<or> length decompressed_buffer \<noteq> expected_decompressed_size
         then None
         else Some (delta_loop decompressed_buffer 0 0))"

section \<open>Receiver session (\<open>transfer_session.cpp\<close>)\<close>

subsection \<open>Waveform blocks\<close>

text \<open>
  The fields \<open>parse_waveform_header\<close> assigns; the reserved fields of
  \<open>waveform_header_t\<close> are never written by the receiver.
\<close>

record waveform_header =
  block_number :: u32
  timestamp_ms :: u32
  sample_rate_hz :: u32
  sample_count :: u16
  trigger_sample :: u16
  pulse_freq_hz :: u32
  temperature_cx10 :: u16
  gain_db :: u8
  crc32 :: u32

record waveform_data =
  header :: waveform_header
  samples :: "u32 list"

definition parse_waveform_header :: "u8 list \<Rightarrow> waveform_header" where
  "parse_waveform_header data =
     \<lparr>block_number = u32_le (data ! 0) (data ! 1) (data ! 2) (data ! 3),
      timestamp_ms = u32_le (data ! 4) (data ! 5) (data ! 6) (data ! 7),
      sample_rate_hz = u32_le (data ! 8) (data ! 9) (data ! 10) (data ! 11),
      sample_count = u16_le (data ! 12) (data ! 13),
      trigger_sample = u16_le (data ! 16) (data ! 17),
      pulse_freq_hz = u32_le (data ! 18) (data ! 19) (data ! 20) (data ! 21),
      temperature_cx10 = u16_le (data ! 26) (data ! 27),
      gain_db = data ! 28,
      crc32 = u32_le (data ! 30) (data ! 31) (data ! 32) (data ! 33)\<rparr>"

text \<open>One iteration of \<open>unpack_24bit_samples\<close>, with the sign extension from bit 23.\<close>

definition unpack_sample :: "u8 list \<Rightarrow> nat \<Rightarrow> u32" where
  "unpack_sample sample_data i =
     (let offset = i * 3;
          sample = ucast (sample_data ! offset)
                   OR push_bit 8 (ucast (sample_data ! (offset + 1)))
                   OR push_bit 16 (ucast (sample_data ! (offset + 2)))
      in if sample AND 0x800000 \<noteq> 0 then sample OR 0xFF000000 else sample)"

definition unpack_24bit_samples :: "u8 list \<Rightarrow> nat \<Rightarrow> u32 list" where
  "unpack_24bit_samples sample_data sample_count_arg =
     map (unpack_sample sample_data) [0..<sample_count_arg]"

text \<open>
  Both block decoders return \<open>bool\<close> and fill a \<open>waveform_data_t\<close>; the model returns
  the filled value on \<open>true\<close> and \<open>None\<close> on \<open>false\<close>.
\<close>

definition process_uncompressed_block :: "u8 list \<Rightarrow> waveform_data option" where
  "process_uncompressed_block block_data =
     (if length block_data < WAVEFORM_HEADER_SIZE + 7128 then None
      else Some \<lparr>header = parse_waveform_header block_data,
                 samples = unpack_24bit_samples (drop WAVEFORM_HEADER_SIZE block_data)
                             SAMPLES_PER_WAVEFORM\<rparr>)"

definition process_compressed_block :: "(u8 list \<Rightarrow> u8 list option) \<Rightarrow> u8 list \<Rightarrow> waveform_data option" where
  "process_compressed_block inflate block_data =
     (if length block_data < WAVEFORM_HEADER_SIZE then None
      else
        (case decompress_waveform inflate (drop WAVEFORM_HEADER_SIZE block_data) of
           None \<Rightarrow> None
         | Some decoded \<Rightarrow>
             (let calculated_crc = calculate_crc32_samples (take SAMPLES_PER_WAVEFORM decoded)
              in if calculated_crc \<noteq> crc32 (parse_waveform_header block_data) then None
                 else Some \<lparr>header = parse_waveform_header block_data, samples = decoded\<rparr>)))"

subsection \<open>Session state and callbacks\<close>

text \<open>
  \<open>transfer_stats_t\<close> of \<open>data_types.h\<close>. The three \<open>double\<close> fields are modelled by the
  real numbers that the C++ expressions denote; the rounding of a quotient to a
  \<open>double\<close> is not modelled.
\<close>

record transfer_stats =
  blocks_received :: u32
  total_blocks :: u32
  stats_total_bytes_received :: u32
  stats_total_chunks_received :: u32
  throughput_kbps :: real
  progress_percent :: real
  elapsed_seconds :: real

text \<open>
  A reading of \<open>std::chrono::steady_clock\<close> is an integer number of ticks, taken here
  as nanoseconds (the tick of the clock in libstdc++ and libc++), and
  \<open>duration_cast<milliseconds>\<close> truncates towards zero. Every reading of the clock by
  the code is an input of the model.
\<close>

type_synonym time_point = int

definition duration_cast_milliseconds :: "int \<Rightarrow> int" where
  "duration_cast_milliseconds d =
     (if 0 \<le> d then d div 1000000 else - ((- d) div 1000000))"

text \<open>
  \<open>struct transfer_session\<close>. The three \<open>std::map\<close>s are finite maps keyed by
  \<open>uint16_t\<close>; a callback field records whether the function pointer is non-null.
\<close>

record transfer_session =
  is_active :: bool
  start_time :: time_point
  received_blocks :: "u16 \<rightharpoonup> u8 list"
  block_chunks :: "u16 \<rightharpoonup> (u16 \<rightharpoonup> u8 list)"
  block_expected_chunks :: "u16 \<rightharpoonup> u16"
  last_acked_block :: u16
  total_bytes_received :: u32
  total_chunks_received :: u32
  waveform_callback :: bool
  progress_callback :: bool
  completion_callback :: bool
  ack_callback :: bool

text \<open>A callback invocation, with the arguments the embedder sees.\<close>

datatype callback_event =
    WaveformCallback waveform_data bool
  | AckCallback u16
  | ProgressCallback transfer_stats
  | CompletionCallback transfer_stats

text \<open>
  Reading past \<open>data + length\<close> is undefined behaviour in the source; the model
  makes it a value.
\<close>

datatype fault = BufferOverread

text \<open>
  \<open>new transfer_session_t()\<close> value-initialises the object, so \<open>start_time\<close> is the
  clock's epoch until \<open>start\<close> assigns it.
\<close>

definition transfer_session_create :: transfer_session where
  "transfer_session_create =
     \<lparr>is_active = False, start_time = 0, received_blocks = Map.empty,
      block_chunks = Map.empty, block_expected_chunks = Map.empty, last_acked_block = 0,
      total_bytes_received = 0, total_chunks_received = 0,
      waveform_callback = False, progress_callback = False,
      completion_callback = False, ack_callback = False\<rparr>"

definition transfer_session_start :: "time_point \<Rightarrow> transfer_session \<Rightarrow> transfer_session" where
  "transfer_session_start now session =
     session\<lparr>is_active := True, start_time := now, received_blocks := Map.empty,
             block_chunks := Map.empty, block_expected_chunks := Map.empty,
             last_acked_block := 0, total_bytes_received := 0, total_chunks_received := 0\<rparr>"

definition transfer_session_stop :: "transfer_session \<Rightarrow> transfer_session" where
  "transfer_session_stop session = session\<lparr>is_active := False\<rparr>"

text \<open>
  \<open>transfer_session_get_stats\<close>. The clock is read only when the session is active;
  \<open>now\<close> is that reading. \<open>received_blocks.size()\<close> is stored in a \<open>uint32_t\<close>.
\<close>

definition transfer_session_get_stats :: "time_point \<Rightarrow> transfer_session \<Rightarrow> transfer_stats" where
  "transfer_session_get_stats now session =
     (let blocks = (of_nat (card (dom (received_blocks session))) :: u32);
          total = (of_nat TOTAL_BLOCKS :: u32);
          bytes = total_bytes_received session;
          elapsed = (if is_active session
                     then real_of_int (duration_cast_milliseconds (now - start_time session)) / 1000
                     else 0)
      in \<lparr>blocks_received = blocks,
          total_blocks = total,
          stats_total_bytes_received = bytes,
          stats_total_chunks_received = total_chunks_received session,
          throughput_kbps = (if is_active session \<and> elapsed > 0
                             then (real (unat bytes) / elapsed) / 1000 else 0),
          progress_percent = (real (unat blocks) * 100) / real (unat total),
          elapsed_seconds = elapsed\<rparr>)"

subsection \<open>Chunk processing\<close>

text \<open>
  The reassembly loop \<open>for (uint16_t i = 0; i < total_chunks; i++)\<close>. The
  \<open>operator[]\<close> of \<open>std::map\<close> yields an empty vector for an index that was never
  stored.
\<close>

definition reassemble_block :: "(u16 \<rightharpoonup> u8 list) \<Rightarrow> u16 \<Rightarrow> u8 list" where
  "reassemble_block chunks total_chunks =
     concat (map (\<lambda>i. case chunks (of_nat i) of None \<Rightarrow> [] | Some chunk \<Rightarrow> chunk)
                 [0..<unat total_chunks])"

text \<open>
  The encoding is inferred from the size of the assembled block
  (\<open>is_compressed = block_data.size() < BLOCK_SIZE\<close>) and the block goes to the decoder
  chosen that way. The result is the flag and the decoder's outcome.
\<close>

definition decode_block :: "(u8 list \<Rightarrow> u8 list option) \<Rightarrow> u8 list \<Rightarrow> bool \<times> waveform_data option" where
  "decode_block inflate block_data =
     (let is_compressed = (length block_data < BLOCK_SIZE)
      in (is_compressed,
          if is_compressed then process_compressed_block inflate block_data
          else process_uncompressed_block block_data))"

text \<open>
  The body of \<open>if (session->block_chunks[block_number].size() == total_chunks)\<close>:
  decode, report the waveform, record the block, erase the partial entry, then the ACK,
  progress and completion callbacks in the order of the source. \<open>now\<close> is the reading
  of the clock by the \<open>get_stats\<close> call for the progress callback; the call for the
  completion callback comes after \<open>is_active = false\<close> and reads no clock.
\<close>

definition complete_block ::
  "(u8 list \<Rightarrow> u8 list option) \<Rightarrow> time_point \<Rightarrow> transfer_session \<Rightarrow> u16
     \<Rightarrow> (u16 \<rightharpoonup> u8 list) \<Rightarrow> u16 \<Rightarrow> callback_event list \<times> transfer_session" where
  "complete_block inflate now session block_num chunks total_chunks =
     (let block_data = reassemble_block chunks total_chunks;
          (is_compressed, success) = decode_block inflate block_data;
          waveform_calls = (case success of
                              Some waveform \<Rightarrow>
                                if waveform_callback session
                                then [WaveformCallback waveform is_compressed] else []
                            | None \<Rightarrow> []);
          s1 = session\<lparr>received_blocks := (received_blocks session)(block_num \<mapsto> block_data),
                       block_chunks := (block_chunks session)(block_num := None),
                       block_expected_chunks := (block_expected_chunks session)(block_num := None)\<rparr>;
          should_ack = (block_num > 0 \<and> (unat block_num + 1) mod ACK_INTERVAL = 0);
          ack_calls = (if should_ack \<and> ack_callback s1 then [AckCallback block_num] else []);
          progress_calls = (if progress_callback s1
                            then [ProgressCallback (transfer_session_get_stats now s1)] else [])
      in if card (dom (received_blocks s1)) = TOTAL_BLOCKS
         then (let s2 = s1\<lparr>is_active := False\<rparr>
               in (waveform_calls @ ack_calls @ progress_calls @
                     (if completion_callback s2
                      then [CompletionCallback (transfer_session_get_stats now s2)] else []),
                   s2))
         else (waveform_calls @ ack_calls @ progress_calls, s1))"

text \<open>The four header fields \<open>process_chunk\<close> parses from the first eight bytes.\<close>

definition chunk_block_number :: "u8 list \<Rightarrow> u16" where
  "chunk_block_number data = u16_le (data ! 0) (data ! 1)"

definition chunk_chunk_number :: "u8 list \<Rightarrow> u16" where
  "chunk_chunk_number data = u16_le (data ! 2) (data ! 3)"

definition chunk_chunk_size :: "u8 list \<Rightarrow> u16" where
  "chunk_chunk_size data = u16_le (data ! 4) (data ! 5)"

definition chunk_total_chunks :: "u8 list \<Rightarrow> u16" where
  "chunk_total_chunks data = u16_le (data ! 6) (data ! 7)"

text \<open>
  The partial entry of the chunk's block after \<open>Store chunk\<close>: the entry found (or a
  fresh empty one) with \<open>chunk_number\<close> mapped to the payload.
\<close>

definition stored_chunks :: "transfer_session \<Rightarrow> u8 list \<Rightarrow> (u16 \<rightharpoonup> u8 list)" where
  "stored_chunks session data =
     (case block_chunks session (chunk_block_number data) of
        None \<Rightarrow> Map.empty
      | Some stored \<Rightarrow> stored)
     (chunk_chunk_number data \<mapsto> take (unat (chunk_chunk_size data)) (drop 12 data))"

text \<open>
  The session after \<open>Store chunk\<close> and the two counter updates that follow it: the
  partial entry is written back, the expected count is recorded when the entry was
  created by this chunk, and both counters advance on every call.
\<close>

definition store_chunk :: "transfer_session \<Rightarrow> u8 list \<Rightarrow> transfer_session" where
  "store_chunk session data =
     session\<lparr>block_chunks :=
               (block_chunks session)(chunk_block_number data \<mapsto> stored_chunks session data),
             block_expected_chunks :=
               (case block_chunks session (chunk_block_number data) of
                  None \<Rightarrow> (block_expected_chunks session)
                            (chunk_block_number data \<mapsto> chunk_total_chunks data)
                | Some stored \<Rightarrow> block_expected_chunks session),
             total_chunks_received := total_chunks_received session + 1,
             total_bytes_received :=
               total_bytes_received session + ucast (chunk_chunk_size data)\<rparr>"

text \<open>
  \<open>transfer_session_process_chunk\<close>. The result is the returned \<open>bool\<close>, the callbacks
  invoked during the call in order, and the session afterwards; \<open>now\<close> is the reading of
  the clock during the call. The vector constructor
  \<open>chunk_data(data + 12, data + 12 + chunk_size)\<close> reads \<open>chunk_size\<close> bytes whatever
  \<open>length\<close> is, so a \<open>chunk_size\<close> beyond the buffer is a \<open>BufferOverread\<close>.
\<close>

definition transfer_session_process_chunk ::
  "(u8 list \<Rightarrow> u8 list option) \<Rightarrow> time_point \<Rightarrow> transfer_session \<Rightarrow> u8 list
     \<Rightarrow> fault + (bool \<times> callback_event list \<times> transfer_session)" where
  "transfer_session_process_chunk inflate now session data =
     (if length data < 12 then Inr (False, [], session)
      else if unat (chunk_block_number data) \<ge> TOTAL_BLOCKS then Inr (False, [], session)
      else if length data < 12 + unat (chunk_chunk_size data) then Inl BufferOverread
      else if card (dom (stored_chunks session data)) = unat (chunk_total_chunks data)
      then (case complete_block inflate now (store_chunk session data) (chunk_block_number data)
                   (stored_chunks session data) (chunk_total_chunks data) of
              (calls, s2) \<Rightarrow> Inr (True, calls, s2))
      else Inr (True, [], store_chunk session data))"

text \<open>
  Feeding a sequence of notifications to the session, one \<open>process_chunk\<close> call each,
  collecting the callbacks; a fault ends the run. \<open>clock i\<close> is the reading of the
  clock during the \<open>i\<close>-th call.
\<close>

fun feed_chunks ::
  "(u8 list \<Rightarrow> u8 list option) \<Rightarrow> (nat \<Rightarrow> time_point) \<Rightarrow> transfer_session \<Rightarrow> u8 list list
     \<Rightarrow> fault + (callback_event list \<times> transfer_session)" where
  "feed_chunks inflate clock session [] = Inr ([], session)"
| "feed_chunks inflate clock session (data # rest) =
     (case transfer_session_process_chunk inflate (clock 0) session data of
        Inl f \<Rightarrow> Inl f
      | Inr (ok, calls, s1) \<Rightarrow>
          (case feed_chunks inflate (\<lambda>i. clock (Suc i)) s1 rest of
             Inl f \<Rightarrow> Inl f
           | Inr (calls', s2) \<Rightarrow> Inr (calls @ calls', s2)))"

text \<open>Selecting the invocations of one callback from a trace.\<close>

fun is_waveform_call :: "callback_event \<Rightarrow> bool" where
  "is_waveform_call (WaveformCallback w c) = True"
| "is_waveform_call e = False"

fun is_completion_call :: "callback_event \<Rightarrow> bool" where
  "is_completion_call (CompletionCallback st) = True"
| "is_completion_call e = False"

text \<open>The waveform decoded from a raw block of zero bytes.\<close>

definition zero_waveform :: waveform_data where
  "zero_waveform =
     \<lparr>header = \<lparr>block_number = 0, timestamp_ms = 0, sample_rate_hz = 0, sample_count = 0,
                 trigger_sample = 0, pulse_freq_hz = 0, temperature_cx10 = 0, gain_db = 0,
                 crc32 = 0\<rparr>,
      samples = replicate 2376 0\<rparr>"

section \<open>Sender (\<open>app_data_transfer.c\<close>)\<close>

text \<open>
  The peripheral keeps its transfer state in file-level statics; the model collects
  them in one record that every operation takes and returns. The build configuration
  is the one of \<open>app_data_transfer.h\<close>: \<open>BENCHMARK_MODE_ENABLED = 0\<close> and
  \<open>USE_COMPRESSION = 0\<close>. Readings of the tick counter (\<open>get_time_ms\<close>) and the status
  returned by the stack's \<open>send_notification\<close> are inputs of the operations that use
  them.
\<close>

datatype transfer_state =
    TRANSFER_STATE_IDLE
  | TRANSFER_STATE_ACTIVE
  | TRANSFER_STATE_PAUSED
  | TRANSFER_STATE_WAITING_ACK
  | TRANSFER_STATE_COMPLETE

text \<open>The sender's \<open>transfer_stats_t\<close>.\<close>

record sender_stats =
  start_time_ms :: u32
  end_time_ms :: u32
  total_bytes :: u32
  total_chunks :: u32
  blocks_sent :: u16
  retransmits :: u16
  disconnections :: u32
  congestion_events :: u32
  send_failures :: u32

text \<open>
  The statics. \<open>notification_credits\<close> is an \<open>int16_t\<close>, compared as a signed value.
  \<open>block_data\<close> is the 7168-byte block buffer, given by its byte at each index.
\<close>

record sender =
  current_state :: transfer_state
  connection_id :: u16
  notifications_enabled :: bool
  negotiated_mtu :: u16
  actual_chunk_size :: u16
  actual_chunks_per_block :: u16
  current_block :: u16
  current_chunk :: u16
  last_acked_block :: u16
  waiting_for_ack :: bool
  block_data :: "nat \<Rightarrow> u8"
  current_block_size :: u32
  stats :: sender_stats
  consecutive_send_failures :: u16
  consecutive_send_successes :: u16
  current_delay_ms :: u16
  last_congestion_report_time :: u32
  notification_credits :: u16
  notifications_queued :: u32
  notifications_transmitted :: u32

text \<open>Status of \<open>wiced_bt_gatt_server_send_notification\<close>, as far as \<open>send_chunk\<close> tells them apart.\<close>

datatype gatt_status = WICED_BT_GATT_SUCCESS | WICED_BT_GATT_CONGESTED | WICED_BT_GATT_ERROR

text \<open>
  What is undefined behaviour in the C source: a division by a zero chunk size, and a
  \<open>memcpy\<close> that leaves the block buffer or the packet buffer.
\<close>

datatype sender_fault = DivideByZero | BufferOverrun

definition SENDER_TOTAL_BLOCKS :: nat where
  "SENDER_TOTAL_BLOCKS = 1800"

definition BLOCK_SIZE_MAX :: nat where
  "BLOCK_SIZE_MAX = 7168"

definition SENDER_ACK_INTERVAL :: nat where
  "SENDER_ACK_INTERVAL = 20"

definition WAVEFORM_RAW_DATA_SIZE :: nat where
  "WAVEFORM_RAW_DATA_SIZE = 2376 * 3"

text \<open>
  \<open>sizeof(waveform_block_header_t)\<close>: the packed struct of \<open>app_waveform.h\<close> has fields
  of 4+4+4+2+2+2+4+1+1+2+2+1+1+4+4 bytes.
\<close>

definition SIZEOF_WAVEFORM_BLOCK_HEADER :: nat where
  "SIZEOF_WAVEFORM_BLOCK_HEADER = 38"

text \<open>\<open>sizeof(chunk_header_t)\<close> on the sender: five \<open>uint16_t\<close> and two \<open>uint8_t\<close>.\<close>

definition SIZEOF_CHUNK_HEADER :: nat where
  "SIZEOF_CHUNK_HEADER = 12"

definition MAX_NOTIFICATIONS_IN_FLIGHT :: u16 where
  "MAX_NOTIFICATIONS_IN_FLIGHT = 2"

definition MIN_DELAY_MS :: u16 where
  "MIN_DELAY_MS = 15"

definition MAX_DELAY_MS :: u16 where
  "MAX_DELAY_MS = 50"

definition INITIAL_DELAY_MS :: u16 where
  "INITIAL_DELAY_MS = 15"

definition CONGESTION_THRESHOLD :: u16 where
  "CONGESTION_THRESHOLD = 3"

definition SUCCESS_THRESHOLD :: u16 where
  "SUCCESS_THRESHOLD = 50"

definition BACKOFF_INCREMENT :: u16 where
  "BACKOFF_INCREMENT = 5"

definition SPEEDUP_DECREMENT :: u16 where
  "SPEEDUP_DECREMENT = 1"

definition CONGESTION_REPORT_INTERVAL_MS :: u32 where
  "CONGESTION_REPORT_INTERVAL_MS = 5000"

definition zero_stats :: sender_stats where
  "zero_stats = \<lparr>start_time_ms = 0, end_time_ms = 0, total_bytes = 0, total_chunks = 0,
                  blocks_sent = 0, retransmits = 0, disconnections = 0,
                  congestion_events = 0, send_failures = 0\<rparr>"

text \<open>The statics as their initialisers leave them at boot.\<close>

definition sender_boot :: sender where
  "sender_boot =
     \<lparr>current_state = TRANSFER_STATE_IDLE, connection_id = 0, notifications_enabled = False,
      negotiated_mtu = 23, actual_chunk_size = 12, actual_chunks_per_block = 30,
      current_block = 0, current_chunk = 0, last_acked_block = 0, waiting_for_ack = False,
      block_data = (\<lambda>i. 0), current_block_size = 7168, stats = zero_stats,
      consecutive_send_failures = 0, consecutive_send_successes = 0, current_delay_ms = 30,
      last_congestion_report_time = 0, notification_credits = 2,
      notifications_queued = 0, notifications_transmitted = 0\<rparr>"

definition reset_transfer_state :: "sender \<Rightarrow> sender" where
  "reset_transfer_state s =
     s\<lparr>current_state := TRANSFER_STATE_IDLE, connection_id := 0,
       notifications_enabled := False, current_block := 0, current_chunk := 0,
       last_acked_block := 0, waiting_for_ack := False, stats := zero_stats,
       consecutive_send_failures := 0, consecutive_send_successes := 0,
       current_delay_ms := INITIAL_DELAY_MS, last_congestion_report_time := 0,
       notification_credits := MAX_NOTIFICATIONS_IN_FLIGHT,
       notifications_queued := 0, notifications_transmitted := 0\<rparr>"

definition app_data_transfer_init :: "sender \<Rightarrow> sender" where
  "app_data_transfer_init s = reset_transfer_state s"

text \<open>
  \<open>app_data_transfer_set_mtu\<close>. The subtraction is carried out in \<open>size_t\<close> and
  truncated to \<open>uint16_t\<close>; the division is by the new chunk size.
\<close>

definition app_data_transfer_set_mtu :: "u16 \<Rightarrow> sender \<Rightarrow> sender_fault + sender" where
  "app_data_transfer_set_mtu mtu s =
     (let chunk = mtu - 3 - of_nat SIZEOF_CHUNK_HEADER
      in if chunk = 0 then Inl DivideByZero
         else Inr (s\<lparr>negotiated_mtu := mtu,
                     actual_chunk_size := chunk,
                     actual_chunks_per_block :=
                       ucast ((of_nat BLOCK_SIZE_MAX + ucast chunk - 1 :: u32) div ucast chunk)\<rparr>))"

text \<open>
  \<open>generate_block_data\<close> in this configuration copies the 38 header bytes and the 7128
  sample bytes that \<open>app_waveform_generate\<close> produced into the buffer and returns their
  total. The generator computes its samples in floating point; the model takes the
  bytes it yields for a block as the parameter \<open>waveform\<close>.
\<close>

definition generate_block_data :: "(u16 \<Rightarrow> nat \<Rightarrow> u8) \<Rightarrow> u16 \<Rightarrow> (nat \<Rightarrow> u8) \<Rightarrow> u32 \<times> (nat \<Rightarrow> u8)" where
  "generate_block_data waveform block_num buffer =
     (of_nat (SIZEOF_WAVEFORM_BLOCK_HEADER + WAVEFORM_RAW_DATA_SIZE),
      (\<lambda>i. if i < SIZEOF_WAVEFORM_BLOCK_HEADER + WAVEFORM_RAW_DATA_SIZE
           then waveform block_num i else buffer i))"

definition load_block :: "(u16 \<Rightarrow> nat \<Rightarrow> u8) \<Rightarrow> sender \<Rightarrow> sender" where
  "load_block waveform s =
     (case generate_block_data waveform (current_block s) (block_data s) of
        (total_size, buffer) \<Rightarrow> s\<lparr>block_data := buffer, current_block_size := total_size\<rparr>)"

definition app_data_transfer_start :: "(u16 \<Rightarrow> nat \<Rightarrow> u8) \<Rightarrow> u32 \<Rightarrow> u16 \<Rightarrow> sender \<Rightarrow> bool \<times> sender" where
  "app_data_transfer_start waveform now conn_id s =
     (if \<not> notifications_enabled s then (False, s)
      else (True,
            load_block waveform
              (s\<lparr>connection_id := conn_id, current_state := TRANSFER_STATE_ACTIVE,
                 current_block := 0, current_chunk := 0, last_acked_block := 0,
                 waiting_for_ack := False,
                 stats := zero_stats\<lparr>start_time_ms := now\<rparr>\<rparr>)))"

definition app_data_transfer_stop :: "sender \<Rightarrow> sender" where
  "app_data_transfer_stop s = s\<lparr>current_state := TRANSFER_STATE_IDLE\<rparr>"

definition app_data_transfer_pause :: "sender \<Rightarrow> sender" where
  "app_data_transfer_pause s =
     (if current_state s = TRANSFER_STATE_ACTIVE \<or> current_state s = TRANSFER_STATE_WAITING_ACK
      then s\<lparr>current_state := TRANSFER_STATE_PAUSED,
             stats := (stats s)\<lparr>disconnections := disconnections (stats s) + 1\<rparr>\<rparr>
      else s)"

definition app_data_transfer_resume :: "(u16 \<Rightarrow> nat \<Rightarrow> u8) \<Rightarrow> u16 \<Rightarrow> sender \<Rightarrow> bool \<times> sender" where
  "app_data_transfer_resume waveform conn_id s =
     (if current_state s \<noteq> TRANSFER_STATE_PAUSED then (False, s)
      else if \<not> notifications_enabled s then (False, s)
      else (True,
            (load_block waveform
               (s\<lparr>connection_id := conn_id, current_block := last_acked_block s,
                  current_chunk := 0, waiting_for_ack := False\<rparr>))
            \<lparr>current_state := TRANSFER_STATE_ACTIVE\<rparr>))"

text \<open>The packed \<open>chunk_header_t\<close> as it lies in the packet on the little-endian target.\<close>

definition u16_bytes :: "u16 \<Rightarrow> u8 list" where
  "u16_bytes w = [ucast w, ucast (drop_bit 8 w)]"

definition chunk_header_bytes :: "u16 \<Rightarrow> u16 \<Rightarrow> u16 \<Rightarrow> u16 \<Rightarrow> u16 \<Rightarrow> u8 \<Rightarrow> u8 \<Rightarrow> u8 list" where
  "chunk_header_bytes block_num chunk_num chunk_size total_chunks_arg block_size_total flags reserved =
     u16_bytes block_num @ u16_bytes chunk_num @ u16_bytes chunk_size @
     u16_bytes total_chunks_arg @ u16_bytes block_size_total @ [flags, reserved]"

text \<open>
  The part of \<open>send_chunk\<close> between the credit check and the call into the stack: the
  number of chunks of the block, the offset and size of this chunk, and the packet.
  \<open>packet\<close> holds \<open>sizeof(chunk_header_t) + 512\<close> bytes.
\<close>

definition total_chunks_for_block :: "sender \<Rightarrow> u16" where
  "total_chunks_for_block s =
     ucast ((current_block_size s + ucast (actual_chunk_size s) - 1) div ucast (actual_chunk_size s))"

definition chunk_offset :: "sender \<Rightarrow> u16 \<Rightarrow> u32" where
  "chunk_offset s chunk_num = ucast chunk_num * ucast (actual_chunk_size s)"

definition this_chunk_size :: "sender \<Rightarrow> u16 \<Rightarrow> u16" where
  "this_chunk_size s chunk_num =
     (if chunk_offset s chunk_num + ucast (actual_chunk_size s) > current_block_size s
      then ucast (current_block_size s - chunk_offset s chunk_num)
      else actual_chunk_size s)"

definition build_packet :: "sender \<Rightarrow> u16 \<Rightarrow> u16 \<Rightarrow> sender_fault + u8 list" where
  "build_packet s block_num chunk_num =
     (if actual_chunk_size s = 0 then Inl DivideByZero
      else if 512 < unat (this_chunk_size s chunk_num)
              \<or> BLOCK_SIZE_MAX < unat (chunk_offset s chunk_num) + unat (this_chunk_size s chunk_num)
      then Inl BufferOverrun
      else Inr (chunk_header_bytes block_num chunk_num (this_chunk_size s chunk_num)
                  (total_chunks_for_block s) (ucast (current_block_size s)) 0 0
                @ map (block_data s)
                    [unat (chunk_offset s chunk_num) ..<
                       unat (chunk_offset s chunk_num) + unat (this_chunk_size s chunk_num)]))"

text \<open>
  \<open>send_chunk\<close>: the returned \<open>bool\<close>, the packet the stack accepted (if any) and the
  statics afterwards.
\<close>

definition send_chunk ::
  "u32 \<Rightarrow> gatt_status \<Rightarrow> u16 \<Rightarrow> u16 \<Rightarrow> sender \<Rightarrow> sender_fault + (bool \<times> u8 list option \<times> sender)" where
  "send_chunk now status block_num chunk_num s =
     (if notification_credits s \<le>s 0
      then Inr (False, None,
                if now - last_congestion_report_time s > CONGESTION_REPORT_INTERVAL_MS
                then s\<lparr>last_congestion_report_time := now\<rparr> else s)
      else
        (case build_packet s block_num chunk_num of
           Inl f \<Rightarrow> Inl f
         | Inr packet \<Rightarrow>
             (if status \<noteq> WICED_BT_GATT_SUCCESS
              then
                (let s1 = s\<lparr>consecutive_send_failures := consecutive_send_failures s + 1,
                             consecutive_send_successes := 0,
                             stats := (stats s)\<lparr>send_failures := send_failures (stats s) + 1\<rparr>\<rparr>
                 in if status = WICED_BT_GATT_CONGESTED
                    then
                      (if consecutive_send_failures s1 \<ge> CONGESTION_THRESHOLD
                       then
                         (let raised = current_delay_ms s1 + BACKOFF_INCREMENT;
                              s2 = s1\<lparr>current_delay_ms :=
                                        (if raised > MAX_DELAY_MS then MAX_DELAY_MS else raised)\<rparr>
                          in if now - last_congestion_report_time s2 > CONGESTION_REPORT_INTERVAL_MS
                             then Inr (False, None,
                                       s2\<lparr>stats := (stats s2)\<lparr>congestion_events :=
                                                                  congestion_events (stats s2) + 1\<rparr>,
                                          last_congestion_report_time := now\<rparr>)
                             else Inr (False, None, s2))
                       else Inr (False, None, s1))
                    else Inr (False, None, s1))
              else
                (let s1 = s\<lparr>notification_credits := notification_credits s - 1,
                             notifications_queued := notifications_queued s + 1,
                             consecutive_send_successes := consecutive_send_successes s + 1,
                             consecutive_send_failures := 0\<rparr>
                 in if consecutive_send_successes s1 \<ge> SUCCESS_THRESHOLD
                       \<and> current_delay_ms s1 > MIN_DELAY_MS
                    then
                      (let lowered = current_delay_ms s1 - SPEEDUP_DECREMENT
                       in Inr (True, Some packet,
                               s1\<lparr>current_delay_ms :=
                                    (if lowered < MIN_DELAY_MS then MIN_DELAY_MS else lowered),
                                  consecutive_send_successes := 0\<rparr>))
                    else Inr (True, Some packet, s1)))))"

text \<open>
  The tail of \<open>app_data_transfer_process_next_chunk\<close> once \<open>send_chunk\<close> has returned
  \<open>true\<close>: count the chunk, advance, and at the end of a block move to the next one and
  stop at the ACK barrier.
\<close>

definition advance_after_send :: "(u16 \<Rightarrow> nat \<Rightarrow> u8) \<Rightarrow> sender \<Rightarrow> sender" where
  "advance_after_send waveform s =
     (let s1 = s\<lparr>stats := (stats s)\<lparr>total_chunks := total_chunks (stats s) + 1,
                                     total_bytes := total_bytes (stats s)
                                                      + ucast (actual_chunk_size s)\<rparr>,
                  current_chunk := current_chunk s + 1\<rparr>;
          chunks_in_current_block = total_chunks_for_block s1
      in if current_chunk s1 \<ge> chunks_in_current_block
         then
           (let s2 = s1\<lparr>current_chunk := 0, current_block := current_block s1 + 1,
                        stats := (stats s1)\<lparr>blocks_sent := blocks_sent (stats s1) + 1\<rparr>\<rparr>;
                s3 = (if unat (current_block s2) mod SENDER_ACK_INTERVAL = 0
                         \<and> unat (current_block s2) < SENDER_TOTAL_BLOCKS
                      then s2\<lparr>current_state := TRANSFER_STATE_WAITING_ACK,
                              waiting_for_ack := True\<rparr>
                      else s2)
            in if unat (current_block s3) < SENDER_TOTAL_BLOCKS
               then load_block waveform s3 else s3)
         else s1)"

definition app_data_transfer_process_next_chunk ::
  "(u16 \<Rightarrow> nat \<Rightarrow> u8) \<Rightarrow> u32 \<Rightarrow> gatt_status \<Rightarrow> sender
     \<Rightarrow> sender_fault + (bool \<times> u8 list option \<times> sender)" where
  "app_data_transfer_process_next_chunk waveform now status s =
     (if current_state s \<noteq> TRANSFER_STATE_ACTIVE then Inr (False, None, s)
      else if waiting_for_ack s then Inr (True, None, s)
      else if unat (current_block s) \<ge> SENDER_TOTAL_BLOCKS
      then Inr (False, None,
                s\<lparr>current_state := TRANSFER_STATE_COMPLETE,
                  stats := (stats s)\<lparr>end_time_ms := now\<rparr>\<rparr>)
      else
        (case send_chunk now status (current_block s) (current_chunk s) s of
           Inl f \<Rightarrow> Inl f
         | Inr (sent, packet, s1) \<Rightarrow>
             if \<not> sent then Inr (True, None, s1)
             else Inr (True, packet, advance_after_send waveform s1)))"

text \<open>
  \<open>app_data_transfer_control_write_handler\<close>. The written value is a byte string;
  \<open>control_msg_t\<close> is packed, so the command is byte 0 and \<open>block_number\<close> bytes 1 and 2.
\<close>

definition CTRL_CMD_START :: u8 where
  "CTRL_CMD_START = 0x01"

definition CTRL_CMD_STOP :: u8 where
  "CTRL_CMD_STOP = 0x02"

definition CTRL_CMD_ACK :: u8 where
  "CTRL_CMD_ACK = 0x03"

definition SIZEOF_CONTROL_MSG :: nat where
  "SIZEOF_CONTROL_MSG = 7"

definition handle_ack :: "u16 \<Rightarrow> sender \<Rightarrow> sender" where
  "handle_ack msg_block_number s =
     (if msg_block_number \<ge> last_acked_block s
      then
        (let s1 = s\<lparr>last_acked_block := msg_block_number + 1\<rparr>
         in if waiting_for_ack s1
            then s1\<lparr>waiting_for_ack := False, current_state := TRANSFER_STATE_ACTIVE\<rparr>
            else s1)
      else s)"

definition app_data_transfer_control_write_handler ::
  "(u16 \<Rightarrow> nat \<Rightarrow> u8) \<Rightarrow> u32 \<Rightarrow> u16 \<Rightarrow> u8 list \<Rightarrow> sender \<Rightarrow> sender" where
  "app_data_transfer_control_write_handler waveform now conn_id p_val s =
     (if length p_val < SIZEOF_CONTROL_MSG then s
      else if p_val ! 0 = CTRL_CMD_START then snd (app_data_transfer_start waveform now conn_id s)
      else if p_val ! 0 = CTRL_CMD_STOP then app_data_transfer_stop s
      else if p_val ! 0 = CTRL_CMD_ACK then handle_ack (u16_le (p_val ! 1) (p_val ! 2)) s
      else s)"

definition app_data_transfer_cccd_write_handler :: "u16 \<Rightarrow> bool \<Rightarrow> sender \<Rightarrow> sender" where
  "app_data_transfer_cccd_write_handler conn_id enabled s =
     (let s1 = s\<lparr>notifications_enabled := enabled, connection_id := conn_id\<rparr>
      in if \<not> enabled \<and> current_state s1 = TRANSFER_STATE_ACTIVE
         then app_data_transfer_pause s1 else s1)"

definition app_data_transfer_notification_sent :: "sender \<Rightarrow> sender" where
  "app_data_transfer_notification_sent s =
     (if notification_credits s <s MAX_NOTIFICATIONS_IN_FLIGHT
      then s\<lparr>notification_credits := notification_credits s + 1,
             notifications_transmitted := notifications_transmitted s + 1\<rparr>
      else s)"

text \<open>
  A sender state at the last chunk of block 19: MTU 259, so 244 payload bytes per chunk
  and 30 chunks for the 7166-byte block; chunk 29 is due and both credits are free.
\<close>

definition barrier_example :: sender where
  "barrier_example =
     load_block (\<lambda>b i. 0)
       (sender_boot\<lparr>current_state := TRANSFER_STATE_ACTIVE, notifications_enabled := True,
                    negotiated_mtu := 259, actual_chunk_size := 244,
                    current_block := 19, current_chunk := 29\<rparr>)"

section \<open>Chunking a block\<close>

text \<open>
  The notifications the sender emits for one block, in the natural-number arithmetic
  that \<open>send_chunk\<close> performs on machine integers: chunk \<open>k\<close> carries the bytes from offset
  \<open>k * cs\<close>, at most \<open>cs\<close> of them, behind a header with the block number, \<open>k\<close>, the
  payload length, the number of chunks \<open>\<lceil>size / cs\<rceil>\<close> and the block size.
\<close>

definition chunk_payload :: "nat \<Rightarrow> u8 list \<Rightarrow> nat \<Rightarrow> u8 list" where
  "chunk_payload cs blk k = take cs (drop (k * cs) blk)"

definition chunk_count :: "nat \<Rightarrow> u8 list \<Rightarrow> nat" where
  "chunk_count cs blk = (length blk + cs - 1) div cs"

definition chunk_frame :: "nat \<Rightarrow> nat \<Rightarrow> u8 list \<Rightarrow> nat \<Rightarrow> u8 list" where
  "chunk_frame b cs blk k =
     chunk_header_bytes (of_nat b) (of_nat k) (of_nat (length (chunk_payload cs blk k)))
       (of_nat (chunk_count cs blk)) (of_nat (length blk)) 0 0
     @ chunk_payload cs blk k"

definition chunk_frames :: "nat \<Rightarrow> nat \<Rightarrow> u8 list \<Rightarrow> u8 list list" where
  "chunk_frames b cs blk = map (chunk_frame b cs blk) [0..<chunk_count cs blk]"

text \<open>
  The partial entry of the receiver once chunks \<open>0\<close> to \<open>k - 1\<close> of a block are stored.
\<close>

definition partial_chunks :: "nat \<Rightarrow> u8 list \<Rightarrow> nat \<Rightarrow> (u16 \<rightharpoonup> u8 list)" where
  "partial_chunks cs blk k = (\<lambda>c. if unat c < k then Some (chunk_payload cs blk (unat c)) else None)"

section \<open>Test inputs for the receiver\<close>

text \<open>
  The notification for a block that consists of one chunk without payload, and the
  session in which the first \<open>n\<close> such blocks are recorded after \<open>c\<close> chunks, with a
  completion callback registered and no other.
\<close>

definition empty_block_chunk :: "nat \<Rightarrow> u8 list" where
  "empty_block_chunk b = chunk_header_bytes (of_nat b) 0 0 1 0 0 0"

definition after_empty_blocks :: "time_point \<Rightarrow> nat \<Rightarrow> nat \<Rightarrow> transfer_session" where
  "after_empty_blocks t0 n c =
     transfer_session_create
       \<lparr>is_active := (n < 1800),
        start_time := t0,
        received_blocks := (\<lambda>k. if unat k < n then Some [] else None),
        total_chunks_received := of_nat c,
        completion_callback := True\<rparr>"

section \<open>The compressed decode in the words of the specification\<close>

text \<open>
  For comparison with the code, the decode as the specification words it, in the
  arithmetic of natural numbers and integers and without the functions of the code.

  A little-endian field is the number \<open>b\<^sub>0 + 256 * b\<^sub>1 + 256\<^sup>2 * b\<^sub>2 + \<dots>\<close> of its bytes;
  \<open>spec_field data off n\<close> is the field of \<open>n\<close> bytes at offset \<open>off\<close>.
\<close>

fun spec_le :: "u8 list \<Rightarrow> nat" where
  "spec_le [] = 0"
| "spec_le (b # bs) = unat b + 256 * spec_le bs"

definition spec_field :: "u8 list \<Rightarrow> nat \<Rightarrow> nat \<Rightarrow> nat" where
  "spec_field data off n = spec_le (map (\<lambda>i. data ! (off + i)) [0..<n])"

text \<open>
  The waveform-block header by the offsets and sizes of the specification's table:
  \<open>block_number\<close> 0/4, \<open>timestamp_ms\<close> 4/4, \<open>sample_rate_hz\<close> 8/4, \<open>sample_count\<close> 12/2,
  \<open>trigger_sample\<close> 16/2, \<open>pulse_freq_hz\<close> 18/4, \<open>temperature_cx10\<close> 26/2, \<open>gain_db\<close> 28/1,
  \<open>crc32\<close> 30/4.
\<close>

definition spec_header :: "u8 list \<Rightarrow> waveform_header" where
  "spec_header data =
     \<lparr>block_number = of_nat (spec_field data 0 4),
      timestamp_ms = of_nat (spec_field data 4 4),
      sample_rate_hz = of_nat (spec_field data 8 4),
      sample_count = of_nat (spec_field data 12 2),
      trigger_sample = of_nat (spec_field data 16 2),
      pulse_freq_hz = of_nat (spec_field data 18 4),
      temperature_cx10 = of_nat (spec_field data 26 2),
      gain_db = of_nat (spec_field data 28 1),
      crc32 = of_nat (spec_field data 30 4)\<rparr>"

text \<open>
  A 16-bit field read as a signed number in two's complement; delta \<open>j\<close> of the
  decompressed buffer is the signed 16-bit little-endian field at offset \<open>2 * j\<close>; sample
  \<open>i\<close> is the sum of the deltas \<open>0\<close> to \<open>i\<close> (a running sum from a zero seed), as an
  integer.
\<close>

definition spec_int16 :: "nat \<Rightarrow> int" where
  "spec_int16 v = (if v < 32768 then int v else int v - 65536)"

definition spec_delta :: "u8 list \<Rightarrow> nat \<Rightarrow> int" where
  "spec_delta buf j = spec_int16 (spec_field buf (2 * j) 2)"

definition spec_sample :: "u8 list \<Rightarrow> nat \<Rightarrow> int" where
  "spec_sample buf i = (\<Sum>j = 0..<Suc i. spec_delta buf j)"

definition spec_samples :: "u8 list \<Rightarrow> int list" where
  "spec_samples buf = map (spec_sample buf) [0..<2376]"

text \<open>
  The packed 24-bit little-endian form of a sample array: the three low bytes of each
  sample in two's complement, lowest first.
\<close>

definition spec_pack_24bit :: "int list \<Rightarrow> u8 list" where
  "spec_pack_24bit xs =
     concat (map (\<lambda>x. [of_int (x mod 256), of_int (x div 256 mod 256),
                        of_int (x div 65536 mod 256)]) xs)"

text \<open>
  CRC-32 with the parameters the specification names: reflected (the register is
  shifted right and the polynomial is applied when the bit shifted out is set),
  polynomial \<open>0xEDB88320\<close>, initial value \<open>0xFFFFFFFF\<close>, final XOR \<open>0xFFFFFFFF\<close>, the
  register being a natural number.
\<close>

definition SPEC_CRC32_POLYNOMIAL :: nat where
  "SPEC_CRC32_POLYNOMIAL = 0xEDB88320"

definition SPEC_CRC32_INIT :: nat where
  "SPEC_CRC32_INIT = 0xFFFFFFFF"

definition SPEC_CRC32_FINAL_XOR :: nat where
  "SPEC_CRC32_FINAL_XOR = 0xFFFFFFFF"

definition spec_crc32_shift :: "nat \<Rightarrow> nat" where
  "spec_crc32_shift c = (if odd c then (c div 2) XOR SPEC_CRC32_POLYNOMIAL else c div 2)"

definition spec_crc32_update :: "nat \<Rightarrow> u8 \<Rightarrow> nat" where
  "spec_crc32_update c b = (spec_crc32_shift ^^ 8) (c XOR unat b)"

definition spec_crc32 :: "u8 list \<Rightarrow> nat" where
  "spec_crc32 bytes = foldl spec_crc32_update SPEC_CRC32_INIT bytes XOR SPEC_CRC32_FINAL_XOR"

section \<open>Statistics without the clock\<close>

text \<open>
  \<open>inactive_timing\<close> puts into a statistics snapshot the two values that
  \<open>transfer_session_get_stats\<close> assigns when the session is not active;
  \<open>stopped_view\<close> does so in the argument of a progress callback.
\<close>

definition inactive_timing :: "transfer_stats \<Rightarrow> transfer_stats" where
  "inactive_timing st = st\<lparr>throughput_kbps := 0, elapsed_seconds := 0\<rparr>"

fun stopped_view :: "callback_event \<Rightarrow> callback_event" where
  "stopped_view (ProgressCallback st) = ProgressCallback (inactive_timing st)"
| "stopped_view e = e"

section \<open>Basic facts about the receiver\<close>

lemma get_stats_inactive:
  "transfer_session_get_stats now (s\<lparr>is_active := False\<rparr>)
     = inactive_timing (transfer_session_get_stats now s)"
  by (simp add: transfer_session_get_stats_def inactive_timing_def Let_def)

lemma get_stats_inactive_now:
  "transfer_session_get_stats now (s\<lparr>is_active := False\<rparr>)
     = transfer_session_get_stats now' (s\<lparr>is_active := False\<rparr>)"
  by (simp add: transfer_session_get_stats_def Let_def)

lemma complete_block_is_active:
  "complete_block inflate now (s\<lparr>is_active := False\<rparr>) bn chunks t =
     (case complete_block inflate now s bn chunks t of
        (calls, s') \<Rightarrow> (map stopped_view calls, s'\<lparr>is_active := False\<rparr>))"
  by (cases "decode_block inflate (reassemble_block chunks t)")
     (simp add: complete_block_def Let_def transfer_session_get_stats_def inactive_timing_def
        split: option.splits)

lemma stored_chunks_is_active:
  "stored_chunks (s\<lparr>is_active := b\<rparr>) data = stored_chunks s data"
  by (simp add: stored_chunks_def)

lemma store_chunk_is_active:
  "store_chunk (s\<lparr>is_active := b\<rparr>) data = (store_chunk s data)\<lparr>is_active := b\<rparr>"
  by (simp add: store_chunk_def stored_chunks_def split: option.splits)

lemma unpack_sample_zero:
  "i * 3 + 2 < n \<Longrightarrow> unpack_sample (replicate n 0) i = 0"
  by (simp add: unpack_sample_def Let_def)

lemma unpack_24bit_samples_zero:
  "k * 3 \<le> n \<Longrightarrow> unpack_24bit_samples (replicate n 0) k = replicate k 0"
  unfolding unpack_24bit_samples_def
  by (rule nth_equalityI) (simp_all add: unpack_sample_zero)

lemma parse_waveform_header_zero:
  "34 \<le> n \<Longrightarrow> parse_waveform_header (replicate n 0) =
     \<lparr>block_number = 0, timestamp_ms = 0, sample_rate_hz = 0, sample_count = 0,
      trigger_sample = 0, pulse_freq_hz = 0, temperature_cx10 = 0, gain_db = 0, crc32 = 0\<rparr>"
  by (simp add: parse_waveform_header_def u32_le_def u16_le_def)

lemma unat_of_nat_len: "n < 2 ^ LENGTH('a) \<Longrightarrow> unat (of_nat n :: 'a :: len word) = n"
  by (simp add: unat_of_nat)

lemma byte_less: "unat (b :: u8) < 256"
  using unsigned_less [of b, where ?'a = nat] by simp

lemma u16_le_spec: "u16_le a b = of_nat (spec_le [a, b])"
proof -
  have "u16_le a b = ucast a + push_bit 8 (ucast b)"
    unfolding u16_le_def
    by (rule disjunctive_add [symmetric]) (auto simp add: bit_simps dest: bit_imp_le_length)
  then show ?thesis by (simp add: push_bit_eq_mult)
qed

lemma spec_le_2_less: "spec_le [a, b] < 65536"
  using byte_less [of a] byte_less [of b] by simp

lemma unat_u16_le: "unat (u16_le a b) = spec_le [a, b]"
  unfolding u16_le_spec by (rule unat_of_nat_len) (use spec_le_2_less [of a b] in simp)

lemma u32_le_spec: "u32_le a b c d = of_nat (spec_le [a, b, c, d])"
proof -
  have "u32_le a b c d
        = ucast a + (push_bit 8 (ucast b) + (push_bit 16 (ucast c) + push_bit 24 (ucast d)))"
  proof -
    have 1: "(push_bit 16 (ucast c) :: u32) OR push_bit 24 (ucast d)
              = push_bit 16 (ucast c) + push_bit 24 (ucast d)"
      by (rule disjunctive_add [symmetric]) (auto simp add: bit_simps dest: bit_imp_le_length)
    have 2: "(push_bit 8 (ucast b) :: u32) OR (push_bit 16 (ucast c) OR push_bit 24 (ucast d))
              = push_bit 8 (ucast b) + (push_bit 16 (ucast c) OR push_bit 24 (ucast d))"
      by (rule disjunctive_add [symmetric]) (auto simp add: bit_simps dest: bit_imp_le_length)
    have 3: "(ucast a :: u32) OR (push_bit 8 (ucast b) OR (push_bit 16 (ucast c) OR push_bit 24 (ucast d)))
              = ucast a + (push_bit 8 (ucast b) OR (push_bit 16 (ucast c) OR push_bit 24 (ucast d)))"
      by (rule disjunctive_add [symmetric]) (auto simp add: bit_simps dest: bit_imp_le_length)
    show ?thesis
      unfolding u32_le_def by (subst 3, subst 2, subst 1) (rule refl)
  qed
  then show ?thesis by (simp add: push_bit_eq_mult)
qed

lemma spec_le_4_less: "spec_le [a, b, c, d] < 4294967296"
  using byte_less [of a] byte_less [of b] byte_less [of c] byte_less [of d] by simp

lemma unat_u32_le: "unat (u32_le a b c d) = spec_le [a, b, c, d]"
  unfolding u32_le_spec by (rule unat_of_nat_len) (use spec_le_4_less [of a b c d] in simp)

lemma upt_1_2_4: "[0..<1] = [0 :: nat]" "[0..<2] = [0, 1 :: nat]" "[0..<4] = [0, 1, 2, 3 :: nat]"
  by code_simp+

lemma spec_field_bytes:
  "spec_field data off 1 = spec_le [data ! off]"
  "spec_field data off 2 = spec_le [data ! off, data ! (off + 1)]"
  "spec_field data off 4 = spec_le [data ! off, data ! (off + 1), data ! (off + 2), data ! (off + 3)]"
  by (simp_all only: spec_field_def upt_1_2_4 list.map add_0_right)

lemma gain_spec: "(b :: u8) = of_nat (spec_le [b])"
  by simp

lemma parse_waveform_header_spec: "parse_waveform_header data = spec_header data"
  unfolding parse_waveform_header_def spec_header_def spec_field_bytes
  by (simp only: u32_le_spec u16_le_spec gain_spec [symmetric] add_0 numeral_plus_numeral
        one_plus_numeral numeral_plus_one semiring_norm)

lemma signed_take_bit_15:
  assumes "0 \<le> x" and "x < 65536"
  shows "signed_take_bit 15 x = (if x < 32768 then x else x - (65536 :: int))"
proof (cases "x < 32768")
  case True
  then have "(x + 32768) mod 65536 = x + 32768" using assms by simp
  then show ?thesis using True
    by (simp add: signed_take_bit_eq_take_bit_shift take_bit_eq_mod)
next
  case False
  have "x + 32768 = (x - 32768) + 65536" by arith
  then have "(x + 32768) mod 65536 = ((x - 32768) + 65536) mod 65536" by (simp only:)
  also have "\<dots> = (x - 32768) mod 65536" by (simp only: mod_add_self2)
  also have "\<dots> = x - 32768" using False assms by simp
  finally show ?thesis using False
    by (simp add: signed_take_bit_eq_take_bit_shift take_bit_eq_mod)
qed

lemma sint_u16_le: "sint (u16_le a b) = spec_int16 (spec_le [a, b])"
proof -
  define v where "v = spec_le [a, b]"
  have v: "v < 65536" unfolding v_def by (rule spec_le_2_less)
  have "sint (u16_le a b) = signed_take_bit 15 (int (unat (u16_le a b)))"
    by (simp add: sint_uint)
  also have "\<dots> = signed_take_bit 15 (int v)" by (simp only: unat_u16_le v_def)
  also have "\<dots> = (if int v < 32768 then int v else int v - 65536)"
    using v by (intro signed_take_bit_15) simp_all
  also have "\<dots> = spec_int16 v" by (simp add: spec_int16_def)
  finally show ?thesis unfolding v_def .
qed


lemma unat_crc32_round: "unat (crc32_round c) = spec_crc32_shift (unat c)"
proof -
  have "odd (unat c) \<longleftrightarrow> odd c"
    by (simp flip: bit_0 add: bit_unsigned_iff)
  moreover have "c AND 1 \<noteq> 0 \<longleftrightarrow> odd c"
    by (simp add: and_one_eq odd_iff_mod_2_eq_one)
  ultimately have odd: "c AND 1 \<noteq> 0 \<longleftrightarrow> odd (unat c)"
    by (simp only:)
  have half: "unat (drop_bit 1 c) = unat c div 2"
    by (simp only: unat_drop_bit_eq) (simp add: drop_bit_eq_div)
  have poly: "unat (0xEDB88320 :: u32) = SPEC_CRC32_POLYNOMIAL"
    by (simp add: SPEC_CRC32_POLYNOMIAL_def)
  show ?thesis
    unfolding crc32_round_def spec_crc32_shift_def odd
    by (simp only: unsigned_xor_eq half poly if_distrib [of unat])
qed

lemma unat_crc32_rounds: "unat ((crc32_round ^^ n) c) = (spec_crc32_shift ^^ n) (unat c)"
  by (induction n) (simp_all add: unat_crc32_round)

lemma unat_ucast_byte: "unat (ucast (b :: u8) :: u32) = unat b"
  by (simp add: unsigned_ucast_eq take_bit_nat_eq_self_iff byte_less [THEN less_trans])

lemma unat_crc32_byte: "unat (crc32_byte c b) = spec_crc32_update (unat c) b"
  unfolding crc32_byte_def spec_crc32_update_def unat_crc32_rounds
  by (simp only: unsigned_xor_eq unat_ucast_byte)

lemma unat_crc32_fold:
  "unat (foldl crc32_byte c bs) = foldl spec_crc32_update (unat c) bs"
  by (induction bs arbitrary: c) (simp_all add: unat_crc32_byte)

lemma unat_calculate_crc32_data: "unat (calculate_crc32_data bs) = spec_crc32 bs"
proof -
  have "NOT w = w XOR 0xFFFFFFFF" for w :: u32
  proof -
    have "(0xFFFFFFFF :: u32) = - 1" by simp
    then show ?thesis by (simp only: bit.xor_one_right)
  qed
  then have "unat (calculate_crc32_data bs)
               = unat (foldl crc32_byte 0xFFFFFFFF bs XOR 0xFFFFFFFF)"
    by (simp only: calculate_crc32_data_def)
  also have "\<dots> = foldl spec_crc32_update (unat (0xFFFFFFFF :: u32)) bs XOR unat (0xFFFFFFFF :: u32)"
    by (simp only: unsigned_xor_eq unat_crc32_fold)
  also have "unat (0xFFFFFFFF :: u32) = 4294967295" by simp
  finally show ?thesis
    by (simp only: spec_crc32_def SPEC_CRC32_INIT_def SPEC_CRC32_FINAL_XOR_def)
qed

lemma spec_crc32_less: "spec_crc32 bs < 4294967296"
  using unsigned_less [of "calculate_crc32_data bs", where ?'a = nat]
  by (simp add: unat_calculate_crc32_data)

lemma sample_bytes_pack:
  "sample_bytes sample = [ucast sample, ucast (drop_bit 8 sample), ucast (drop_bit 16 sample)]"
proof -
  have m: "(0xFF :: u32) = mask 8" by (simp add: mask_eq_exp_minus_1)
  have a: "(ucast (sample AND 0xFF) :: u8) = ucast sample"
    unfolding m by (rule bit_word_eqI) (auto simp add: bit_simps)
  have b: "(ucast (signed_drop_bit 8 sample AND 0xFF) :: u8) = ucast (drop_bit 8 sample)"
    unfolding m by (rule bit_word_eqI) (auto simp add: bit_simps)
  have c: "(ucast (signed_drop_bit 16 sample AND 0xFF) :: u8) = ucast (drop_bit 16 sample)"
    unfolding m by (rule bit_word_eqI) (auto simp add: bit_simps)
  show ?thesis by (simp add: sample_bytes_def a b c)
qed


lemma sample_bytes_spec:
  "sample_bytes (of_int x) = [of_int (x mod 256), of_int (x div 256 mod 256),
                              of_int (x div 65536 mod 256)]"
proof -
  have a: "(ucast (of_int x :: u32) :: u8) = of_int (x mod 256)"
    by (rule bit_word_eqI) (auto simp add: bit_simps simp flip: take_bit_eq_mod [of 8, simplified])
  have b: "(ucast (drop_bit 8 (of_int x :: u32)) :: u8) = of_int (x div 256 mod 256)"
    by (rule bit_word_eqI)
       (auto simp add: bit_simps simp flip: take_bit_eq_mod [of 8, simplified]
          drop_bit_eq_div [of 8, simplified])
  have c: "(ucast (drop_bit 16 (of_int x :: u32)) :: u8) = of_int (x div 65536 mod 256)"
    by (rule bit_word_eqI)
       (auto simp add: bit_simps simp flip: take_bit_eq_mod [of 8, simplified]
          drop_bit_eq_div [of 16, simplified])
  show ?thesis by (simp only: sample_bytes_pack a b c)
qed

lemma crc32_samples_as_data:
  "calculate_crc32_samples (map of_int xs) = calculate_crc32_data (spec_pack_24bit xs)"
proof -
  have "foldl (\<lambda>crc sample. foldl crc32_byte crc (sample_bytes sample)) c (map of_int xs)
        = foldl crc32_byte c (spec_pack_24bit xs)" for c
    by (induction xs arbitrary: c) (simp_all add: spec_pack_24bit_def sample_bytes_spec)
  then show ?thesis by (simp add: calculate_crc32_samples_def calculate_crc32_data_def)
qed

lemma sint_u16_le_delta:
  "sint (u16_le (buf ! (i * 2)) (buf ! (i * 2 + 1))) = spec_delta buf i"
  by (simp only: sint_u16_le spec_delta_def spec_field_bytes mult.commute [of 2 i])

lemma delta_loop_sum:
  "i \<le> 2376 \<Longrightarrow> delta_loop buf i prev =
     map (\<lambda>k. prev + of_int (\<Sum>j = i..<Suc k. spec_delta buf j)) [i..<2376]"
proof (induction buf i prev rule: delta_loop.induct)
  case (1 buf i prev)
  show ?case
  proof (cases "i < 2376")
    case True
    define d where "d = u16_le (buf ! (i * 2)) (buf ! (i * 2 + 1))"
    have step: "delta_loop buf (i + 1) (prev + scast d) =
        map (\<lambda>k. (prev + scast d) + of_int (\<Sum>j = i + 1..<Suc k. spec_delta buf j)) [i + 1..<2376]"
      using "1.IH" [OF True refl refl] True unfolding d_def by simp
    have sc: "(scast d :: u32) = of_int (spec_delta buf i)"
      unfolding d_def by (simp only: sint_u16_le_delta [symmetric] of_int_sint)
    have tl: "(prev + scast d) + of_int (\<Sum>j = i + 1..<Suc k. spec_delta buf j)
          = prev + of_int (\<Sum>j = i..<Suc k. spec_delta buf j)" if "i + 1 \<le> k" for k
    proof -
      have "(\<Sum>j = i..<Suc k. spec_delta buf j) = spec_delta buf i + (\<Sum>j = i + 1..<Suc k. spec_delta buf j)"
        using that by (simp add: sum.atLeast_Suc_lessThan)
      then show ?thesis by (simp add: sc)
    qed
    have "delta_loop buf i prev = (prev + scast d) # delta_loop buf (i + 1) (prev + scast d)"
      using True unfolding d_def by (subst delta_loop.simps) (simp add: Let_def)
    also have "\<dots> = (prev + of_int (\<Sum>j = i..<Suc i. spec_delta buf j))
          # map (\<lambda>k. prev + of_int (\<Sum>j = i..<Suc k. spec_delta buf j)) [i + 1..<2376]"
    proof -
      have m: "map (\<lambda>k. (prev + scast d) + of_int (\<Sum>j = i + 1..<Suc k. spec_delta buf j)) [i + 1..<2376]
             = map (\<lambda>k. prev + of_int (\<Sum>j = i..<Suc k. spec_delta buf j)) [i + 1..<2376]"
        by (rule list.map_cong0) (rule tl, simp)
      have h: "prev + scast d = prev + of_int (\<Sum>j = i..<Suc i. spec_delta buf j)"
        by (simp add: sc)
      show ?thesis
        unfolding step m using h by (simp only:)
    qed
    also have "\<dots> = map (\<lambda>k. prev + of_int (\<Sum>j = i..<Suc k. spec_delta buf j)) [i..<2376]"
      using True by (simp add: upt_conv_Cons del: upt_rec_numeral)
    finally show ?thesis .
  next
    case False
    with "1.prems" have "i = 2376" by simp
    then show ?thesis by (subst delta_loop.simps) simp
  qed
qed


lemma delta_loop_spec: "delta_loop buf 0 0 = map of_int (spec_samples buf)"
  using delta_loop_sum [of 0 buf 0] by (simp add: spec_samples_def spec_sample_def)


lemma spec_field_4_less: "spec_field data off 4 < 4294967296"
  unfolding spec_field_bytes by (rule spec_le_4_less)

lemma crc_compare:
  "calculate_crc32_samples (map of_int xs) \<noteq> crc32 (spec_header block)
     \<longleftrightarrow> spec_crc32 (spec_pack_24bit xs) \<noteq> spec_field block 30 4"
proof -
  have "unat (crc32 (spec_header block)) = spec_field block 30 4"
    unfolding spec_header_def
    by (simp add: unat_of_nat_len spec_field_4_less)
  moreover have "unat (calculate_crc32_samples (map of_int xs)) = spec_crc32 (spec_pack_24bit xs)"
    by (simp only: crc32_samples_as_data unat_calculate_crc32_data)
  ultimately show ?thesis by (metis word_unat_eq_iff)
qed

lemma funpow_8: "(f ^^ 8) x = f (f (f (f (f (f (f (f x)))))))"
  by (simp add: eval_nat_numeral)

lemma spec_crc32_check_value:
  "spec_crc32 [0x31, 0x32, 0x33, 0x34, 0x35, 0x36, 0x37, 0x38, 0x39] = 0xCBF43926"
  by (simp add: spec_crc32_def spec_crc32_update_def spec_crc32_shift_def funpow_8
        SPEC_CRC32_INIT_def SPEC_CRC32_FINAL_XOR_def SPEC_CRC32_POLYNOMIAL_def)

lemma spec_delta_range: "- 32768 \<le> spec_delta buf j \<and> spec_delta buf j < 32768"
proof -
  have "spec_field buf (2 * j) 2 < 65536"
    unfolding spec_field_bytes by (rule spec_le_2_less)
  then show ?thesis by (simp add: spec_delta_def spec_int16_def)
qed

lemma spec_sample_range:
  "- 32768 * int (Suc i) \<le> spec_sample buf i \<and> spec_sample buf i < 32768 * int (Suc i)"
proof (induction i)
  case 0
  then show ?case using spec_delta_range [of buf 0] by (simp add: spec_sample_def)
next
  case (Suc i)
  have "spec_sample buf (Suc i) = spec_sample buf i + spec_delta buf (Suc i)"
    by (simp add: spec_sample_def)
  then show ?case using Suc spec_delta_range [of buf "Suc i"] by (simp add: algebra_simps)
qed

lemma sint_spec_sample:
  assumes "i < 2376"
  shows "sint (of_int (spec_sample buf i) :: u32) = spec_sample buf i"
proof -
  have "int (Suc i) \<le> 2376" using assms by simp
  then have "32768 * int (Suc i) \<le> 32768 * 2376" by (simp only: mult_le_cancel_left_pos)
  then have "- 2147483648 \<le> spec_sample buf i \<and> spec_sample buf i < 2147483648"
    using spec_sample_range [of i buf] by linarith
  then show ?thesis
    by (simp add: signed_of_int signed_take_bit_int_eq_self)
qed


lemma process_chunk_accepted:
  assumes "12 \<le> length data" and "unat (chunk_block_number data) < TOTAL_BLOCKS"
    and "12 + unat (chunk_chunk_size data) \<le> length data"
  shows "transfer_session_process_chunk inflate now s data =
     (if card (dom (stored_chunks s data)) = unat (chunk_total_chunks data)
      then Inr (True, complete_block inflate now (store_chunk s data) (chunk_block_number data)
                        (stored_chunks s data) (chunk_total_chunks data))
      else Inr (True, [], store_chunk s data))"
  using assms by (simp add: transfer_session_process_chunk_def split: prod.splits)

lemma complete_block_fields:
  "received_blocks (snd (complete_block inflate now s bn chunks t))
     = (received_blocks s)(bn \<mapsto> reassemble_block chunks t)"
  "block_chunks (snd (complete_block inflate now s bn chunks t)) = (block_chunks s)(bn := None)"
  "block_expected_chunks (snd (complete_block inflate now s bn chunks t))
     = (block_expected_chunks s)(bn := None)"
  "total_chunks_received (snd (complete_block inflate now s bn chunks t)) = total_chunks_received s"
  "total_bytes_received (snd (complete_block inflate now s bn chunks t)) = total_bytes_received s"
  "waveform_callback (snd (complete_block inflate now s bn chunks t)) = waveform_callback s"
  "progress_callback (snd (complete_block inflate now s bn chunks t)) = progress_callback s"
  "completion_callback (snd (complete_block inflate now s bn chunks t)) = completion_callback s"
  "ack_callback (snd (complete_block inflate now s bn chunks t)) = ack_callback s"
  by (cases "decode_block inflate (reassemble_block chunks t)";
      simp add: complete_block_def Let_def)+

lemma complete_block_waveform_calls:
  "filter is_waveform_call (fst (complete_block inflate now s bn chunks t)) =
     (case decode_block inflate (reassemble_block chunks t) of
        (is_compressed, Some waveform) \<Rightarrow>
           if waveform_callback s then [WaveformCallback waveform is_compressed] else []
      | (is_compressed, None) \<Rightarrow> [])"
  by (cases "decode_block inflate (reassemble_block chunks t)")
     (simp add: complete_block_def Let_def split: option.splits)

lemma complete_block_completion_calls:
  "filter is_completion_call (fst (complete_block inflate now s bn chunks t)) =
     (if card (dom (received_blocks (snd (complete_block inflate now s bn chunks t)))) = TOTAL_BLOCKS
         \<and> completion_callback s
      then [CompletionCallback (transfer_session_get_stats now (snd (complete_block inflate now s bn chunks t)))]
      else [])"
  by (cases "decode_block inflate (reassemble_block chunks t)")
     (simp add: complete_block_def Let_def transfer_session_get_stats_def split: option.splits)

lemma store_chunk_fields:
  "received_blocks (store_chunk s data) = received_blocks s"
  "block_chunks (store_chunk s data)
     = (block_chunks s)(chunk_block_number data \<mapsto> stored_chunks s data)"
  "total_chunks_received (store_chunk s data) = total_chunks_received s + 1"
  "total_bytes_received (store_chunk s data)
     = total_bytes_received s + ucast (chunk_chunk_size data)"
  "waveform_callback (store_chunk s data) = waveform_callback s"
  "progress_callback (store_chunk s data) = progress_callback s"
  "completion_callback (store_chunk s data) = completion_callback s"
  "ack_callback (store_chunk s data) = ack_callback s"
  by (simp_all add: store_chunk_def)


lemma card_dom_upd_one:
  fixes m :: "u16 \<rightharpoonup> 'v"
  assumes "card (dom (m(k \<mapsto> v))) = 1"
  shows "m(k \<mapsto> v) = [k \<mapsto> v]"
proof -
  have "dom (m(k \<mapsto> v)) = {k}"
  proof -
    from assms obtain x where x: "dom (m(k \<mapsto> v)) = {x}" by (auto simp: card_1_singleton_iff)
    moreover have "k \<in> dom (m(k \<mapsto> v))" by simp
    ultimately show ?thesis by auto
  qed
  then have "\<And>y. y \<noteq> k \<Longrightarrow> m y = None" by (auto simp: dom_def split: if_splits)
  then show ?thesis by (auto simp: fun_eq_iff)
qed

lemma stored_chunks_after_store:
  "stored_chunks (store_chunk s data) data = stored_chunks s data"
  by (simp add: stored_chunks_def store_chunk_def)

lemma stored_chunks_fresh:
  "block_chunks s (chunk_block_number data) = None \<Longrightarrow>
   stored_chunks s data
     = [chunk_chunk_number data \<mapsto> take (unat (chunk_chunk_size data)) (drop 12 data)]"
  by (simp add: stored_chunks_def)

lemma stored_chunks_upd:
  "\<exists>m. stored_chunks s data
     = m(chunk_chunk_number data \<mapsto> take (unat (chunk_chunk_size data)) (drop 12 data))"
  by (auto simp add: stored_chunks_def)

lemma process_chunk_completes:
  assumes "12 \<le> length data" and "unat (chunk_block_number data) < TOTAL_BLOCKS"
    and "12 + unat (chunk_chunk_size data) \<le> length data"
    and "card (dom (stored_chunks s data)) = unat (chunk_total_chunks data)"
  shows "transfer_session_process_chunk inflate now s data =
     Inr (True,
          fst (complete_block inflate now (store_chunk s data) (chunk_block_number data)
                 (stored_chunks s data) (chunk_total_chunks data)),
          snd (complete_block inflate now (store_chunk s data) (chunk_block_number data)
                 (stored_chunks s data) (chunk_total_chunks data)))"
  using assms by (simp add: process_chunk_accepted)

lemma process_chunk_stores:
  assumes "12 \<le> length data" and "unat (chunk_block_number data) < TOTAL_BLOCKS"
    and "12 + unat (chunk_chunk_size data) \<le> length data"
    and "card (dom (stored_chunks s data)) \<noteq> unat (chunk_total_chunks data)"
  shows "transfer_session_process_chunk inflate now s data = Inr (True, [], store_chunk s data)"
  using assms by (simp add: process_chunk_accepted)

lemma card_unat_less:
  assumes "n \<le> 65536"
  shows "card {k :: u16. unat k < n} = n"
proof -
  have "{k :: u16. unat k < n} = of_nat ` {0..<n}"
  proof (intro set_eqI iffI)
    fix k :: u16 assume "k \<in> {k. unat k < n}"
    then have "unat k \<in> {0..<n}" by simp
    then have "of_nat (unat k) \<in> (of_nat ` {0..<n} :: u16 set)" by (rule imageI)
    then show "k \<in> of_nat ` {0..<n}" by simp
  next
    fix k :: u16 assume "k \<in> of_nat ` {0..<n}"
    then obtain i where i: "i < n" "k = of_nat i" by auto
    then have "unat k = i" using assms by (simp add: unat_of_nat)
    then show "k \<in> {k. unat k < n}" using i by simp
  qed
  moreover have "inj_on (of_nat :: nat \<Rightarrow> u16) {0..<n}"
    by (rule inj_on_subset [OF inj_on_word_of_nat [where 'a = 16]]) (use assms in auto)
  ultimately show ?thesis by (simp add: card_image)
qed

lemma process_chunk_cases:
  assumes "transfer_session_process_chunk inflate now s data = Inr (ok, calls, s')"
  obtains (reject) "calls = []" "s' = s"
    | (store) "calls = []" "s' = store_chunk s data"
    | (complete) "calls = fst (complete_block inflate now (store_chunk s data) (chunk_block_number data)
                                 (stored_chunks s data) (chunk_total_chunks data))"
                 "s' = snd (complete_block inflate now (store_chunk s data) (chunk_block_number data)
                                 (stored_chunks s data) (chunk_total_chunks data))"
                 "unat (chunk_block_number data) < TOTAL_BLOCKS"
proof (cases "length data < 12 \<or> TOTAL_BLOCKS \<le> unat (chunk_block_number data)")
  case True
  then have "calls = []" "s' = s"
    using assms by (simp_all add: transfer_session_process_chunk_def split: if_splits)
  then show ?thesis by (rule reject)
next
  case False
  let ?X = "complete_block inflate now (store_chunk s data) (chunk_block_number data)
              (stored_chunks s data) (chunk_total_chunks data)"
  from False have acc: "12 \<le> length data" "unat (chunk_block_number data) < TOTAL_BLOCKS"
    by simp_all
  have sz: "12 + unat (chunk_chunk_size data) \<le> length data"
    using assms acc by (simp add: transfer_session_process_chunk_def split: if_splits)
  show ?thesis
  proof (cases "card (dom (stored_chunks s data)) = unat (chunk_total_chunks data)")
    case True
    from process_chunk_completes [OF acc sz True, of inflate] assms
    have "calls = fst ?X" "s' = snd ?X" by (cases ?X; auto)+
    then show ?thesis using acc(2) by (rule complete)
  next
    case False
    from process_chunk_stores [OF acc sz False, of inflate] assms
    have "calls = []" "s' = store_chunk s data" by simp_all
    then show ?thesis by (rule store)
  qed
qed

lemma completion_step:
  assumes "transfer_session_process_chunk inflate now s data = Inr (ok, calls, s')"
  shows "dom (received_blocks s) \<subseteq> dom (received_blocks s') \<and>
    dom (received_blocks s') \<subseteq> dom (received_blocks s) \<union> {k. unat k < TOTAL_BLOCKS} \<and>
    completion_callback s' = completion_callback s \<and>
    (filter is_completion_call calls \<noteq> [] \<longrightarrow>
     completion_callback s \<and> card (dom (received_blocks s')) = TOTAL_BLOCKS) \<and>
    (dom (received_blocks s') \<noteq> dom (received_blocks s) \<longrightarrow>
     card (dom (received_blocks s')) = TOTAL_BLOCKS \<longrightarrow>
     completion_callback s \<longrightarrow> filter is_completion_call calls \<noteq> []) \<and>
    length (filter is_completion_call calls) \<le> 1"
  using assms
proof (cases rule: process_chunk_cases)
  case reject
  then show ?thesis by simp
next
  case store
  then show ?thesis by (simp add: store_chunk_fields)
next
  case complete
  let ?X = "complete_block inflate now (store_chunk s data) (chunk_block_number data)
              (stored_chunks s data) (chunk_total_chunks data)"
  have cc: "filter is_completion_call (fst ?X) =
     (if card (dom (received_blocks (snd ?X))) = TOTAL_BLOCKS \<and> completion_callback s
      then [CompletionCallback (transfer_session_get_stats now (snd ?X))] else [])"
    by (simp add: complete_block_completion_calls store_chunk_fields)
  show ?thesis
    unfolding complete(1,2) cc using complete(3)
    by (auto simp add: complete_block_fields store_chunk_fields)
qed

lemma card_full_superset:
  fixes A B :: "u16 set"
  assumes "A \<subseteq> B" and "B \<subseteq> {k. unat k < TOTAL_BLOCKS}" and "card A = TOTAL_BLOCKS"
  shows "card B = TOTAL_BLOCKS"
proof -
  have c: "card {k :: u16. unat k < TOTAL_BLOCKS} = TOTAL_BLOCKS"
    by (rule card_unat_less) (simp add: TOTAL_BLOCKS_def)
  have "card A \<le> card B" using assms(1) by (intro card_mono) simp_all
  moreover have "card B \<le> card {k :: u16. unat k < TOTAL_BLOCKS}"
    using assms(2) by (intro card_mono) simp_all
  ultimately show ?thesis using assms(3) c by simp
qed

lemma card_bounded:
  fixes B :: "u16 set"
  assumes "B \<subseteq> {k. unat k < TOTAL_BLOCKS}"
  shows "card B \<le> TOTAL_BLOCKS"
proof -
  have c: "card {k :: u16. unat k < TOTAL_BLOCKS} = TOTAL_BLOCKS"
    by (rule card_unat_less) (simp add: TOTAL_BLOCKS_def)
  have "card B \<le> card {k :: u16. unat k < TOTAL_BLOCKS}"
    using assms by (intro card_mono) simp_all
  then show ?thesis using c by simp
qed

lemma feed_completion:
  assumes "dom (received_blocks s) \<subseteq> {k. unat k < TOTAL_BLOCKS}"
    and "feed_chunks inflate clock s xs = Inr (calls, s')"
  shows "dom (received_blocks s) \<subseteq> dom (received_blocks s')
       \<and> dom (received_blocks s') \<subseteq> {k. unat k < TOTAL_BLOCKS}
       \<and> (filter is_completion_call calls \<noteq> [] \<longrightarrow>
            completion_callback s \<and> card (dom (received_blocks s')) = TOTAL_BLOCKS)
       \<and> (card (dom (received_blocks s)) < TOTAL_BLOCKS
            \<and> card (dom (received_blocks s')) = TOTAL_BLOCKS \<and> completion_callback s \<longrightarrow>
            filter is_completion_call calls \<noteq> [])"
  using assms
proof (induction xs arbitrary: s calls clock)
  case Nil
  then show ?case by auto
next
  case (Cons d rest)
  from Cons.prems(2) obtain ok c1 s1 c2 where
    p: "transfer_session_process_chunk inflate (clock 0) s d = Inr (ok, c1, s1)"
    and f: "feed_chunks inflate (\<lambda>i. clock (Suc i)) s1 rest = Inr (c2, s')"
    and calls: "calls = c1 @ c2"
    by (auto split: sum.splits prod.splits)
  from completion_step [OF p]
  have st: "dom (received_blocks s) \<subseteq> dom (received_blocks s1)"
    "dom (received_blocks s1) \<subseteq> dom (received_blocks s) \<union> {k. unat k < TOTAL_BLOCKS}"
    "completion_callback s1 = completion_callback s"
    "filter is_completion_call c1 \<noteq> [] \<longrightarrow>
       completion_callback s \<and> card (dom (received_blocks s1)) = TOTAL_BLOCKS"
    "dom (received_blocks s1) \<noteq> dom (received_blocks s) \<longrightarrow>
       card (dom (received_blocks s1)) = TOTAL_BLOCKS \<longrightarrow>
       completion_callback s \<longrightarrow> filter is_completion_call c1 \<noteq> []"
    by blast+
  have b1: "dom (received_blocks s1) \<subseteq> {k. unat k < TOTAL_BLOCKS}"
    using st(2) Cons.prems(1) by blast
  note ih = Cons.IH [OF b1 f]
  have mono: "dom (received_blocks s) \<subseteq> dom (received_blocks s')"
    using st(1) ih by blast
  have bound: "dom (received_blocks s') \<subseteq> {k. unat k < TOTAL_BLOCKS}"
    using ih by blast
  have fwd: "completion_callback s \<and> card (dom (received_blocks s')) = TOTAL_BLOCKS"
    if "filter is_completion_call calls \<noteq> []"
  proof (cases "filter is_completion_call c1 \<noteq> []")
    case True
    with st(4) have "completion_callback s" "card (dom (received_blocks s1)) = TOTAL_BLOCKS"
      by simp_all
    moreover have "dom (received_blocks s1) \<subseteq> dom (received_blocks s')" using ih by blast
    ultimately show ?thesis using bound card_full_superset by blast
  next
    case False
    with that calls have "filter is_completion_call c2 \<noteq> []" by simp
    with ih st(3) show ?thesis by simp
  qed
  have bwd: "filter is_completion_call calls \<noteq> []"
    if "card (dom (received_blocks s)) < TOTAL_BLOCKS"
      and "card (dom (received_blocks s')) = TOTAL_BLOCKS" and "completion_callback s"
  proof (cases "card (dom (received_blocks s1)) = TOTAL_BLOCKS")
    case True
    with that(1) have "dom (received_blocks s1) \<noteq> dom (received_blocks s)" by auto
    with st(5) True that(3) show ?thesis by (simp add: calls)
  next
    case False
    with card_bounded [OF b1] have "card (dom (received_blocks s1)) < TOTAL_BLOCKS" by simp
    with ih that st(3) have "filter is_completion_call c2 \<noteq> []" by simp
    then show ?thesis by (simp add: calls)
  qed
  show ?case using mono bound fwd bwd by blast
qed


lemma u16_le_bytes: "u16_le (ucast w) (ucast (drop_bit 8 w)) = w"
  unfolding u16_le_def
  by (rule bit_word_eqI) (auto simp add: bit_simps)

lemma chunk_header_fields:
  "chunk_block_number (chunk_header_bytes b k sz t bs f r @ payload) = b"
  "chunk_chunk_number (chunk_header_bytes b k sz t bs f r @ payload) = k"
  "chunk_chunk_size (chunk_header_bytes b k sz t bs f r @ payload) = sz"
  "chunk_total_chunks (chunk_header_bytes b k sz t bs f r @ payload) = t"
  "length (chunk_header_bytes b k sz t bs f r @ payload) = 12 + length payload"
  "drop 12 (chunk_header_bytes b k sz t bs f r @ payload) = payload"
  by (simp_all add: chunk_header_bytes_def u16_bytes_def chunk_block_number_def
        chunk_chunk_number_def chunk_chunk_size_def chunk_total_chunks_def u16_le_bytes)

lemma empty_block_chunk_fields:
  "chunk_block_number (empty_block_chunk b) = of_nat b"
  "chunk_chunk_number (empty_block_chunk b) = 0"
  "chunk_chunk_size (empty_block_chunk b) = 0"
  "chunk_total_chunks (empty_block_chunk b) = 1"
  "length (empty_block_chunk b) = 12"
  using chunk_header_fields [of "of_nat b" 0 0 1 0 0 0 "[]"]
  by (simp_all add: empty_block_chunk_def)

lemma decode_block_empty: "decode_block inflate [] = (True, None)"
  by (simp add: decode_block_def BLOCK_SIZE_def process_compressed_block_def
        WAVEFORM_HEADER_SIZE_def)

lemma received_set_step:
  assumes "n < 65536"
  shows "(\<lambda>k :: u16. if unat k < n then Some ([] :: u8 list) else None)(of_nat n \<mapsto> [])
           = (\<lambda>k. if unat k < Suc n then Some [] else None)"
proof (rule ext)
  fix k :: u16
  have "unat (of_nat n :: u16) = n" using assms by (simp add: unat_of_nat)
  then have "k = of_nat n \<longleftrightarrow> unat k = n" by (metis word_unat_eq_iff)
  then show "((\<lambda>k :: u16. if unat k < n then Some ([] :: u8 list) else None)(of_nat n \<mapsto> [])) k
           = (if unat k < Suc n then Some [] else None)"
    by (auto simp add: less_Suc_eq)
qed

lemma received_set_dup:
  assumes "b < n" and "n \<le> 65536"
  shows "(\<lambda>k :: u16. if unat k < n then Some ([] :: u8 list) else None)(of_nat b \<mapsto> [])
           = (\<lambda>k. if unat k < n then Some [] else None)"
proof (rule ext)
  fix k :: u16
  have "unat (of_nat b :: u16) = b" using assms by (simp add: unat_of_nat)
  then show "((\<lambda>k :: u16. if unat k < n then Some ([] :: u8 list) else None)(of_nat b \<mapsto> [])) k
           = (if unat k < n then Some [] else None)"
    using assms(1) by auto
qed

lemma dom_received_set:
  "dom (\<lambda>k :: u16. if unat k < n then Some ([] :: u8 list) else None) = {k. unat k < n}"
  by (auto simp add: dom_def)

lemma empty_block_step:
  assumes "b < 1800"
    and r: "(\<lambda>k :: u16. if unat k < n then Some ([] :: u8 list) else None)(of_nat b \<mapsto> [])
           = (\<lambda>k. if unat k < m then Some [] else None)"
    and "m \<le> 1800" and "n \<le> m"
  shows "transfer_session_process_chunk inflate now (after_empty_blocks t0 n c) (empty_block_chunk b) =
     Inr (True,
          (if m = 1800
           then [CompletionCallback \<lparr>blocks_received = 1800, total_blocks = 1800,
                    stats_total_bytes_received = 0,
                    stats_total_chunks_received = of_nat (Suc c),
                    throughput_kbps = 0, progress_percent = 100, elapsed_seconds = 0\<rparr>]
           else []),
          after_empty_blocks t0 m (Suc c))"
proof -
  let ?d = "empty_block_chunk b" and ?s = "after_empty_blocks t0 n c"
  have ub: "unat (of_nat b :: u16) = b" using assms(1) by (simp add: unat_of_nat)
  have st: "stored_chunks ?s ?d = [0 \<mapsto> []]"
    by (simp add: stored_chunks_def after_empty_blocks_def transfer_session_create_def
          empty_block_chunk_fields)
  have card_m: "card {k :: u16. unat k < m} = m"
    using assms(3) by (intro card_unat_less) simp
  have acc: "12 \<le> length ?d" "unat (chunk_block_number ?d) < TOTAL_BLOCKS"
    "12 + unat (chunk_chunk_size ?d) \<le> length ?d"
    "card (dom (stored_chunks ?s ?d)) = unat (chunk_total_chunks ?d)"
    using assms(1) by (simp_all add: empty_block_chunk_fields ub TOTAL_BLOCKS_def st)
  have c18: "card {k :: u16. unat k < 1800} = 1800"
    by (rule card_unat_less) simp
  have ins: "insert (of_nat b) {k :: u16. unat k < n} = {k. unat k < m}"
    using arg_cong [OF r, of dom] by (simp add: dom_received_set)
  have re: "reassemble_block [0 \<mapsto> []] (1 :: u16) = []"
    by (simp add: reassemble_block_def)
  have cb: "complete_block inflate now (store_chunk ?s ?d) (of_nat b) [0 \<mapsto> []] 1 =
     ((if m = 1800
           then [CompletionCallback \<lparr>blocks_received = 1800, total_blocks = 1800,
                    stats_total_bytes_received = 0,
                    stats_total_chunks_received = of_nat (Suc c),
                    throughput_kbps = 0, progress_percent = 100, elapsed_seconds = 0\<rparr>]
           else []),
          after_empty_blocks t0 m (Suc c))"
    using assms(3,4)
    by (simp add: complete_block_def re decode_block_empty Let_def store_chunk_def
          after_empty_blocks_def transfer_session_create_def empty_block_chunk_fields
          r dom_received_set ins card_m c18 TOTAL_BLOCKS_def transfer_session_get_stats_def)
  show ?thesis
    using process_chunk_completes [OF acc, of inflate]
    by (simp add: empty_block_chunk_fields st cb)
qed


lemma feed_chunks_append:
  "feed_chunks inflate clock s (xs @ ys) =
     (case feed_chunks inflate clock s xs of
        Inl f \<Rightarrow> Inl f
      | Inr (c1, s1) \<Rightarrow>
          (case feed_chunks inflate (\<lambda>i. clock (length xs + i)) s1 ys of
             Inl f \<Rightarrow> Inl f
           | Inr (c2, s2) \<Rightarrow> Inr (c1 @ c2, s2)))"
  by (induction xs arbitrary: s clock) (auto split: sum.splits prod.splits)

lemma feed_empty_blocks:
  "n \<le> 1800 \<Longrightarrow>
   feed_chunks inflate clock (after_empty_blocks t0 0 0) (map empty_block_chunk [0..<n]) =
     Inr ((if n = 1800
           then [CompletionCallback \<lparr>blocks_received = 1800, total_blocks = 1800,
                    stats_total_bytes_received = 0, stats_total_chunks_received = 1800,
                 throughput_kbps = 0, progress_percent = 100, elapsed_seconds = 0\<rparr>]
           else []),
          after_empty_blocks t0 n n)"
proof (induction n)
  case 0
  then show ?case by simp
next
  case (Suc n)
  then have n: "n < 1800" by simp
  have step: "transfer_session_process_chunk inflate now (after_empty_blocks t0 n n) (empty_block_chunk n) =
     Inr (True,
          (if Suc n = 1800
           then [CompletionCallback \<lparr>blocks_received = 1800, total_blocks = 1800,
                    stats_total_bytes_received = 0,
                    stats_total_chunks_received = of_nat (Suc n),
                    throughput_kbps = 0, progress_percent = 100, elapsed_seconds = 0\<rparr>]
           else []),
          after_empty_blocks t0 (Suc n) (Suc n))" for now
    using n Suc.prems by (intro empty_block_step received_set_step) simp_all
  show ?case
    using Suc.IH n by (simp add: feed_chunks_append step)
qed

lemma concat_chunk_payloads:
  "concat (map (chunk_payload cs blk) [0..<n]) = take (n * cs) blk"
proof (induction n)
  case 0
  then show ?case by simp
next
  case (Suc n)
  have "take (Suc n * cs) blk = take (n * cs) blk @ take cs (drop (n * cs) blk)"
    by (metis take_add mult_Suc add.commute)
  then show ?case using Suc by (simp add: chunk_payload_def del: mult_Suc)
qed

lemma chunk_count_covers:
  assumes "1 \<le> cs"
  shows "length blk \<le> chunk_count cs blk * cs"
proof -
  have "(length blk + cs - 1) div cs * cs = (length blk + cs - 1) - (length blk + cs - 1) mod cs"
    by (simp add: minus_mod_eq_div_mult)
  moreover have "(length blk + cs - 1) mod cs \<le> cs - 1"
    using assms by (metis One_nat_def Suc_pred le_simps(2) less_le_trans mod_less_divisor zero_less_one not_less)
  ultimately show ?thesis using assms by (simp add: chunk_count_def)
qed

lemma concat_all_chunk_payloads:
  "1 \<le> cs \<Longrightarrow> concat (map (chunk_payload cs blk) [0..<chunk_count cs blk]) = blk"
  using chunk_count_covers [of cs blk] by (simp add: concat_chunk_payloads)

lemma dom_partial_chunks: "dom (partial_chunks cs blk k) = {c. unat c < k}"
  by (auto simp add: partial_chunks_def dom_def)

lemma card_partial_chunks: "k \<le> 65536 \<Longrightarrow> card (dom (partial_chunks cs blk k)) = k"
  by (simp add: dom_partial_chunks card_unat_less)

lemma partial_chunks_step:
  assumes "k < 65536"
  shows "(partial_chunks cs blk k)(of_nat k \<mapsto> chunk_payload cs blk k) = partial_chunks cs blk (Suc k)"
proof (rule ext)
  fix c :: u16
  have u: "unat (of_nat k :: u16) = k" using assms by (simp add: unat_of_nat)
  then have "c = of_nat k \<longleftrightarrow> unat c = k" by (metis word_unat_eq_iff)
  then show "((partial_chunks cs blk k)(of_nat k \<mapsto> chunk_payload cs blk k)) c
               = partial_chunks cs blk (Suc k) c"
    by (auto simp add: partial_chunks_def less_Suc_eq)
qed

lemma partial_chunks_0: "partial_chunks cs blk 0 = Map.empty"
  by (simp add: partial_chunks_def)

lemma reassemble_partial_chunks:
  assumes "n \<le> 65535"
  shows "reassemble_block (partial_chunks cs blk n) (of_nat n) = concat (map (chunk_payload cs blk) [0..<n])"
proof -
  have n: "unat (of_nat n :: u16) = n" using assms by (simp add: unat_of_nat)
  have "map (\<lambda>i. case partial_chunks cs blk n (of_nat i) of None \<Rightarrow> [] | Some chunk \<Rightarrow> chunk) [0..<n]
        = map (chunk_payload cs blk) [0..<n]"
  proof (rule list.map_cong0)
    fix i assume "i \<in> set [0..<n]"
    then have i: "i < n" by simp
    then have "unat (of_nat i :: u16) = i" using assms by (simp add: unat_of_nat)
    then show "(case partial_chunks cs blk n (of_nat i) of None \<Rightarrow> [] | Some chunk \<Rightarrow> chunk)
                 = chunk_payload cs blk i"
      using i by (simp add: partial_chunks_def)
  qed
  then show ?thesis unfolding reassemble_block_def n by (rule arg_cong)
qed


lemma unat_of_nat_u16: "n < 65536 \<Longrightarrow> unat (of_nat n :: u16) = n"
  by (simp add: unat_of_nat)

lemma length_chunk_payload: "length (chunk_payload cs blk k) \<le> cs"
  by (simp add: chunk_payload_def)

lemma chunk_frame_fields:
  "chunk_block_number (chunk_frame b cs blk k) = of_nat b"
  "chunk_chunk_number (chunk_frame b cs blk k) = of_nat k"
  "chunk_chunk_size (chunk_frame b cs blk k) = of_nat (length (chunk_payload cs blk k))"
  "chunk_total_chunks (chunk_frame b cs blk k) = of_nat (chunk_count cs blk)"
  "length (chunk_frame b cs blk k) = 12 + length (chunk_payload cs blk k)"
  "drop 12 (chunk_frame b cs blk k) = chunk_payload cs blk k"
  unfolding chunk_frame_def by (rule chunk_header_fields)+

lemma chunk_frame_size:
  assumes "cs \<le> 65535"
  shows "unat (chunk_chunk_size (chunk_frame b cs blk k)) = length (chunk_payload cs blk k)"
proof -
  have "length (chunk_payload cs blk k) < 65536"
    using length_chunk_payload [of cs blk k] assms by simp
  then show ?thesis unfolding chunk_frame_fields by (rule unat_of_nat_u16)
qed

lemma chunk_frame_accepted:
  assumes "b < 1800" and "cs \<le> 65535"
  shows "12 \<le> length (chunk_frame b cs blk k)"
    and "unat (chunk_block_number (chunk_frame b cs blk k)) < TOTAL_BLOCKS"
    and "12 + unat (chunk_chunk_size (chunk_frame b cs blk k)) \<le> length (chunk_frame b cs blk k)"
proof -
  show "12 \<le> length (chunk_frame b cs blk k)" by (simp add: chunk_frame_fields)
  show "unat (chunk_block_number (chunk_frame b cs blk k)) < TOTAL_BLOCKS"
    using assms(1) by (simp add: chunk_frame_fields unat_of_nat_u16 TOTAL_BLOCKS_def)
  show "12 + unat (chunk_chunk_size (chunk_frame b cs blk k)) \<le> length (chunk_frame b cs blk k)"
    by (simp add: chunk_frame_size [OF assms(2)] chunk_frame_fields(5))
qed

lemma stored_chunk_frame:
  assumes "cs \<le> 65535" and "k < 65536"
    and "block_chunks s (of_nat b) = (if k = 0 then None else Some (partial_chunks cs blk k))"
  shows "stored_chunks s (chunk_frame b cs blk k) = partial_chunks cs blk (Suc k)"
proof -
  have "length (chunk_payload cs blk k) < 65536"
    using length_chunk_payload [of cs blk k] assms(1) by simp
  then have sz: "unat (of_nat (length (chunk_payload cs blk k)) :: u16)
                   = length (chunk_payload cs blk k)"
    by (rule unat_of_nat_u16)
  have "stored_chunks s (chunk_frame b cs blk k)
          = (partial_chunks cs blk k)(of_nat k \<mapsto> chunk_payload cs blk k)"
    unfolding stored_chunks_def chunk_frame_fields sz using assms(3)
    by (cases "k = 0") (simp_all add: partial_chunks_0)
  then show ?thesis using assms(2) by (simp only: partial_chunks_step)
qed

lemma feed_frames_prefix:
  assumes "b < 1800" and "cs \<le> 65535" and "chunk_count cs blk \<le> 65535"
    and "block_chunks s (of_nat b) = None"
  shows "k < chunk_count cs blk \<Longrightarrow>
     \<exists>s'. feed_chunks inflate clock s (map (chunk_frame b cs blk) [0..<k]) = Inr ([], s')
        \<and> block_chunks s' (of_nat b) = (if k = 0 then None else Some (partial_chunks cs blk k))
        \<and> waveform_callback s' = waveform_callback s"
proof (induction k)
  case 0
  then show ?case using assms(4) by simp
next
  case (Suc k)
  then obtain s1 where
    f: "feed_chunks inflate clock s (map (chunk_frame b cs blk) [0..<k]) = Inr ([], s1)"
    and bc: "block_chunks s1 (of_nat b) = (if k = 0 then None else Some (partial_chunks cs blk k))"
    and wc: "waveform_callback s1 = waveform_callback s"
    by auto
  let ?fr = "chunk_frame b cs blk k"
  have k: "k < 65536" using Suc.prems assms(3) by simp
  have st: "stored_chunks s1 ?fr = partial_chunks cs blk (Suc k)"
    using assms(2) k bc by (rule stored_chunk_frame)
  have tc: "unat (chunk_total_chunks ?fr) = chunk_count cs blk"
    using assms(3) by (simp add: chunk_frame_fields unat_of_nat_u16)
  have "card (dom (stored_chunks s1 ?fr)) = Suc k"
    unfolding st using k by (intro card_partial_chunks) simp
  then have ne: "card (dom (stored_chunks s1 ?fr)) \<noteq> unat (chunk_total_chunks ?fr)"
    using Suc.prems tc by simp
  have p: "transfer_session_process_chunk inflate now s1 ?fr = Inr (True, [], store_chunk s1 ?fr)"
    for now
    using chunk_frame_accepted [OF assms(1,2)] ne by (rule process_chunk_stores)
  have bc': "block_chunks (store_chunk s1 ?fr) (of_nat b) = Some (partial_chunks cs blk (Suc k))"
    by (simp add: store_chunk_fields chunk_frame_fields st)
  have wc': "waveform_callback (store_chunk s1 ?fr) = waveform_callback s"
    by (simp add: store_chunk_fields wc)
  have "feed_chunks inflate clock s (map (chunk_frame b cs blk) [0..<Suc k]) = Inr ([], store_chunk s1 ?fr)"
    by (simp add: feed_chunks_append f p)
  then show ?case using bc' wc' by (intro exI [where x = "store_chunk s1 ?fr"]) simp
qed

lemma feed_chunk_frames:
  assumes "b < 1800" and "1 \<le> cs" and "cs \<le> 65535" and "blk \<noteq> []"
    and "chunk_count cs blk \<le> 65535" and "block_chunks s (of_nat b) = None"
  shows "\<exists>calls s'. feed_chunks inflate clock s (chunk_frames b cs blk) = Inr (calls, s')
        \<and> received_blocks s' (of_nat b) = Some blk
        \<and> block_chunks s' (of_nat b) = None
        \<and> filter is_waveform_call calls =
             (case decode_block inflate blk of
                (is_compressed, Some waveform) \<Rightarrow>
                   if waveform_callback s then [WaveformCallback waveform is_compressed] else []
              | (is_compressed, None) \<Rightarrow> [])"
proof -
  let ?n = "chunk_count cs blk"
  have "cs \<le> length blk + cs - 1" using assms(4) by (cases blk) simp_all
  then have "1 \<le> ?n" using assms(2) unfolding chunk_count_def
    by (metis div_le_mono div_self less_one not_le)
  then obtain m where n: "?n = Suc m" by (cases ?n) simp_all
  then have "m < ?n" by simp
  from feed_frames_prefix [OF assms(1,3,5,6) this, of inflate] obtain s1 where
    f: "feed_chunks inflate clock s (map (chunk_frame b cs blk) [0..<m]) = Inr ([], s1)"
    and bc: "block_chunks s1 (of_nat b) = (if m = 0 then None else Some (partial_chunks cs blk m))"
    and wc: "waveform_callback s1 = waveform_callback s"
    by auto
  let ?fr = "chunk_frame b cs blk m"
  have m: "m < 65536" using n assms(5) by simp
  have st: "stored_chunks s1 ?fr = partial_chunks cs blk ?n"
    unfolding n using assms(3) m bc by (rule stored_chunk_frame)
  have tc: "chunk_total_chunks ?fr = of_nat ?n" by (simp add: chunk_frame_fields)
  have utc: "unat (chunk_total_chunks ?fr) = ?n"
    using assms(5) by (simp add: chunk_frame_fields unat_of_nat_u16)
  have full: "card (dom (stored_chunks s1 ?fr)) = unat (chunk_total_chunks ?fr)"
    unfolding st utc using assms(5) by (intro card_partial_chunks) simp
  let ?X = "complete_block inflate (clock m) (store_chunk s1 ?fr) (of_nat b)
              (partial_chunks cs blk ?n) (of_nat ?n)"
  have p: "transfer_session_process_chunk inflate (clock m) s1 ?fr = Inr (True, fst ?X, snd ?X)"
    using process_chunk_completes [OF chunk_frame_accepted [OF assms(1,3)] full, of inflate "clock m"]
    unfolding st tc chunk_frame_fields .
  have re: "reassemble_block (partial_chunks cs blk ?n) (of_nat ?n) = blk"
    using assms(5,2) by (simp add: reassemble_partial_chunks concat_all_chunk_payloads)
  have up: "[0..<?n] = [0..<m] @ [m]" using n by simp
  have run: "feed_chunks inflate clock s (chunk_frames b cs blk) = Inr (fst ?X, snd ?X)"
    unfolding chunk_frames_def up by (simp add: feed_chunks_append f p)
  have r: "received_blocks (snd ?X) (of_nat b) = Some blk"
    and c: "block_chunks (snd ?X) (of_nat b) = None"
    by (simp_all add: complete_block_fields re)
  have w: "filter is_waveform_call (fst ?X) =
             (case decode_block inflate blk of
                (is_compressed, Some waveform) \<Rightarrow>
                   if waveform_callback s then [WaveformCallback waveform is_compressed] else []
              | (is_compressed, None) \<Rightarrow> [])"
    by (simp add: complete_block_waveform_calls re store_chunk_fields wc
          split: prod.splits option.splits)
  show ?thesis
    using run r c w by (intro exI [where x = "fst ?X"] exI [where x = "snd ?X"]) (simp only: simp_thms)
qed


lemma chunk_count_le: "1 \<le> cs \<Longrightarrow> chunk_count cs blk \<le> length blk + cs - 1"
  unfolding chunk_count_def by (rule div_le_dividend)

section \<open>Basic facts about the sender\<close>

lemma send_chunk_success:
  assumes "0 <s notification_credits s" and "build_packet s b c = Inr p"
  shows "\<exists>s1. send_chunk now WICED_BT_GATT_SUCCESS b c s = Inr (True, Some p, s1)
           \<and> current_state s1 = current_state s \<and> current_block s1 = current_block s
           \<and> current_chunk s1 = current_chunk s \<and> actual_chunk_size s1 = actual_chunk_size s
           \<and> current_block_size s1 = current_block_size s
           \<and> waiting_for_ack s1 = waiting_for_ack s
           \<and> last_acked_block s1 = last_acked_block s"
proof -
  from assms(1) have "\<not> notification_credits s \<le>s 0"
    by (simp add: word_sle_eq word_sless_alt)
  then show ?thesis using assms(2)
    by (simp add: send_chunk_def Let_def)
qed

lemma total_chunks_for_block_cong:
  "actual_chunk_size s1 = actual_chunk_size s \<Longrightarrow> current_block_size s1 = current_block_size s
    \<Longrightarrow> total_chunks_for_block s1 = total_chunks_for_block s"
  by (simp add: total_chunks_for_block_def)

lemma advance_last_chunk_19:
  assumes "current_block s = 19" and "unat (current_chunk s) + 1 = unat (total_chunks_for_block s)"
  shows "current_state (advance_after_send waveform s) = TRANSFER_STATE_WAITING_ACK
       \<and> waiting_for_ack (advance_after_send waveform s)
       \<and> current_block (advance_after_send waveform s) = 20
       \<and> current_chunk (advance_after_send waveform s) = 0
       \<and> last_acked_block (advance_after_send waveform s) = last_acked_block s"
proof -
  have "current_chunk s + 1 = (of_nat (unat (current_chunk s) + 1) :: u16)" by simp
  also have "\<dots> = of_nat (unat (total_chunks_for_block s))" using assms(2) by simp
  finally have eq: "current_chunk s + 1 = total_chunks_for_block s" by simp
  have tc: "total_chunks_for_block (s\<lparr>stats := st, current_chunk := cc\<rparr>) = total_chunks_for_block s" for st cc
    by (simp add: total_chunks_for_block_def)
  show ?thesis
    by (simp add: advance_after_send_def Let_def tc eq assms(1) SENDER_ACK_INTERVAL_def
         SENDER_TOTAL_BLOCKS_def load_block_def generate_block_data_def)
qed


lemma ack_write_effect:
  "7 \<le> length msg \<Longrightarrow> msg ! 0 = CTRL_CMD_ACK
    \<Longrightarrow> app_data_transfer_control_write_handler waveform now conn msg t =
          (if last_acked_block t \<le> u16_le (msg ! 1) (msg ! 2)
           then (if waiting_for_ack t
                 then t\<lparr>last_acked_block := u16_le (msg ! 1) (msg ! 2) + 1,
                        waiting_for_ack := False, current_state := TRANSFER_STATE_ACTIVE\<rparr>
                 else t\<lparr>last_acked_block := u16_le (msg ! 1) (msg ! 2) + 1\<rparr>)
           else t)"
  by (simp add: app_data_transfer_control_write_handler_def SIZEOF_CONTROL_MSG_def
       CTRL_CMD_ACK_def CTRL_CMD_START_def CTRL_CMD_STOP_def handle_ack_def Let_def)

lemma process_next_chunk_sends:
  "current_state t = TRANSFER_STATE_ACTIVE \<Longrightarrow> \<not> waiting_for_ack t
    \<Longrightarrow> unat (current_block t) < SENDER_TOTAL_BLOCKS
    \<Longrightarrow> app_data_transfer_process_next_chunk waveform now status t =
          (case send_chunk now status (current_block t) (current_chunk t) t of
             Inl f \<Rightarrow> Inl f
           | Inr (sent, packet, t1) \<Rightarrow>
               if \<not> sent then Inr (True, None, t1)
               else Inr (True, packet, advance_after_send waveform t1))"
  by (simp add: app_data_transfer_process_next_chunk_def)

text \<open>
  The packet \<open>send_chunk\<close> builds for chunk \<open>k\<close> of the loaded block is the frame
  \<open>chunk_frame\<close> describes, as long as the negotiated chunk size is between 1 and 512
  bytes and the block fits its buffer.
\<close>

lemma unat_of_nat_u32: "n < 4294967296 \<Longrightarrow> unat (of_nat n :: u32) = n"
  by (simp add: unat_of_nat)

lemma ucast_of_nat_up: "k < 65536 \<Longrightarrow> (ucast (of_nat k :: u16) :: u32) = of_nat k"
  by (simp add: word_unat_eq_iff unat_of_nat unsigned_ucast_eq take_bit_nat_eq_self)

lemma ucast_of_nat_down: "(ucast (of_nat n :: u32) :: u16) = of_nat n"
  by (rule bit_word_eqI) (auto simp add: bit_simps)

lemma of_nat_div_u32:
  "a < 4294967296 \<Longrightarrow> b < 4294967296 \<Longrightarrow> (of_nat a :: u32) div of_nat b = of_nat (a div b)"
  by (simp add: word_unat_eq_iff unat_div unat_of_nat_u32 div_le_dividend le_less_trans [OF div_le_dividend])

lemma of_nat_less_u32:
  "a < 4294967296 \<Longrightarrow> b < 4294967296 \<Longrightarrow> (of_nat a :: u32) < of_nat b \<longleftrightarrow> a < b"
  by (simp add: word_less_nat_alt unat_of_nat_u32)

lemma chunk_before_end:
  assumes "1 \<le> cs" and "k < chunk_count cs blk"
  shows "k * cs < length blk"
proof -
  have "Suc k \<le> (length blk + cs - 1) div cs" using assms(2) by (simp add: chunk_count_def)
  then have "Suc k * cs \<le> length blk + cs - 1"
    using assms(1) by (simp add: less_eq_div_iff_mult_less_eq)
  then show ?thesis using assms(1) by simp
qed

lemma chunk_payload_of_buffer:
  assumes "blk = map f [0..<length blk]" and "k * cs < length blk"
  shows "chunk_payload cs blk k = map f [k * cs..<k * cs + min cs (length blk - k * cs)]"
proof -
  let ?L = "length blk"
  have "chunk_payload cs blk k = take cs (drop (k * cs) (map f [0..<?L]))"
    unfolding chunk_payload_def using assms(1) by simp
  also have "\<dots> = map f (take cs [k * cs..<?L])"
    by (simp add: drop_map take_map)
  also have "take cs [k * cs..<?L] = [k * cs..<k * cs + min cs (?L - k * cs)]"
  proof (cases "k * cs + cs \<le> ?L")
    case True
    then show ?thesis by (simp add: min_def)
  next
    case False
    then have "min cs (?L - k * cs) = ?L - k * cs" by simp
    then have "k * cs + min cs (?L - k * cs) = ?L" using assms(2) by simp
    moreover have "take cs [k * cs..<?L] = [k * cs..<?L]" using False by simp
    ultimately show ?thesis by simp
  qed
  finally show ?thesis .
qed

lemma build_packet_chunk_frame:
  assumes acs: "actual_chunk_size s = of_nat cs" and cs1: "1 \<le> cs" and cs2: "cs \<le> 512"
    and bs: "current_block_size s = of_nat (length blk)" and len: "length blk \<le> 7168"
    and blk: "blk = map (block_data s) [0..<length blk]"
    and k: "k < chunk_count cs blk"
  shows "build_packet s (of_nat b) (of_nat k) = Inr (chunk_frame b cs blk k)"
proof -
  define L where "L = length blk"
  define off where "off = k * cs"
  define nxt where "nxt = off + cs"
  define sz where "sz = min cs (L - off)"
  define top where "top = L + cs - 1"
  have kL: "off < L" unfolding off_def L_def using cs1 k by (rule chunk_before_end)
  have L32: "L < 4294967296" and off32: "off < 4294967296" and nxt32: "nxt < 4294967296"
    and cs32: "cs < 4294967296" and top32: "top < 4294967296" and sz16: "sz < 65536"
    using kL len cs2 by (simp_all add: L_def nxt_def top_def sz_def)
  have "k * 1 \<le> k * cs" using cs1 by (rule mult_le_mono2)
  then have "k \<le> off" by (simp only: mult_1_right off_def)
  then have k16: "k < 65536" using kL len by (simp add: L_def)
  have nz: "actual_chunk_size s \<noteq> 0"
    unfolding acs using cs1 cs2 by (simp add: word_unat_eq_iff unat_of_nat)
  have acs32: "(ucast (actual_chunk_size s) :: u32) = of_nat cs"
    unfolding acs using cs2 by (intro ucast_of_nat_up) simp
  have bsL: "current_block_size s = of_nat L" by (simp only: bs L_def)
  have off: "chunk_offset s (of_nat k) = of_nat off"
    unfolding chunk_offset_def acs32 off_def by (simp add: ucast_of_nat_up [OF k16])
  have uoff: "unat (chunk_offset s (of_nat k)) = off"
    by (simp only: off unat_of_nat_u32 [OF off32])
  have sum: "chunk_offset s (of_nat k) + ucast (actual_chunk_size s) = (of_nat nxt :: u32)"
    by (simp only: off acs32 nxt_def of_nat_add)
  have cond: "(chunk_offset s (of_nat k) + ucast (actual_chunk_size s) > current_block_size s)
                \<longleftrightarrow> L < nxt"
    by (simp only: sum bsL of_nat_less_u32 [OF L32 nxt32])
  have diff: "current_block_size s - chunk_offset s (of_nat k) = (of_nat (L - off) :: u32)"
    using kL by (simp only: bsL off) (simp add: of_nat_diff)
  have tcs: "this_chunk_size s (of_nat k) = of_nat sz"
  proof (cases "L < nxt")
    case True
    then have "sz = L - off" by (simp add: sz_def nxt_def)
    then show ?thesis
      using True cond by (simp only: this_chunk_size_def diff ucast_of_nat_down if_True)
  next
    case False
    then have "sz = cs" by (simp add: sz_def nxt_def)
    then show ?thesis
      using False cond by (simp only: this_chunk_size_def acs if_False)
  qed
  have uthis: "unat (this_chunk_size s (of_nat k)) = sz"
    by (simp only: tcs unat_of_nat_u16 [OF sz16])
  have plen: "length (chunk_payload cs blk k) = sz"
    by (simp add: chunk_payload_def sz_def L_def off_def min.commute)
  have topw: "current_block_size s + ucast (actual_chunk_size s) - 1 = (of_nat top :: u32)"
    using cs1 by (simp only: bsL acs32 top_def) (simp add: of_nat_diff)
  have "(current_block_size s + ucast (actual_chunk_size s) - 1) div ucast (actual_chunk_size s)
          = (of_nat (top div cs) :: u32)"
    unfolding topw unfolding acs32 by (rule of_nat_div_u32 [OF top32 cs32])
  then have tot: "total_chunks_for_block s = of_nat (chunk_count cs blk)"
    by (simp only: total_chunks_for_block_def ucast_of_nat_down chunk_count_def top_def L_def)
  have bst: "(ucast (current_block_size s) :: u16) = of_nat (length blk)"
    unfolding bs by (rule ucast_of_nat_down)
  have ok: "\<not> (512 < unat (this_chunk_size s (of_nat k))
              \<or> BLOCK_SIZE_MAX < unat (chunk_offset s (of_nat k)) + unat (this_chunk_size s (of_nat k)))"
    unfolding uthis uoff using cs2 kL len by (simp add: BLOCK_SIZE_MAX_def sz_def L_def)
  have pay: "map (block_data s)
               [unat (chunk_offset s (of_nat k)) ..<
                  unat (chunk_offset s (of_nat k)) + unat (this_chunk_size s (of_nat k))]
             = chunk_payload cs blk k"
    unfolding uthis uoff using chunk_payload_of_buffer [OF blk kL [unfolded off_def L_def]]
    by (simp only: sz_def off_def L_def)
  show ?thesis
    unfolding build_packet_def chunk_frame_def pay plen
    using nz ok by (simp add: tcs tot bst)
qed

text \<open>
  In particular the packets for the block that \<open>generate_block_data\<close> has just loaded are
  the frames of a 7166-byte block: 38 header bytes and 7128 sample bytes.
\<close>

lemma loaded_block_packet:
  assumes "actual_chunk_size s = of_nat cs" and "1 \<le> cs" and "cs \<le> 512"
    and "k < chunk_count cs (map (waveform (current_block s)) [0..<7166])"
  shows "build_packet (load_block waveform s) (current_block s) (of_nat k)
           = Inr (chunk_frame (unat (current_block s)) cs
                    (map (waveform (current_block s)) [0..<7166]) k)"
proof -
  define blk where "blk = map (waveform (current_block s)) [0..<7166]"
  have len: "length blk = 7166" by (simp add: blk_def)
  have a: "actual_chunk_size (load_block waveform s) = of_nat cs"
    using assms(1) by (simp add: load_block_def generate_block_data_def)
  have b: "current_block_size (load_block waveform s) = of_nat (length blk)"
    by (simp add: len load_block_def generate_block_data_def
          SIZEOF_WAVEFORM_BLOCK_HEADER_def WAVEFORM_RAW_DATA_SIZE_def)
  have "map (waveform (current_block s)) [0..<7166]
          = map (block_data (load_block waveform s)) [0..<7166]"
    by (rule map_cong [OF refl])
       (simp add: load_block_def generate_block_data_def
          SIZEOF_WAVEFORM_BLOCK_HEADER_def WAVEFORM_RAW_DATA_SIZE_def)
  then have c: "blk = map (block_data (load_block waveform s)) [0..<length blk]"
    by (simp only: len) (simp only: blk_def)
  have d: "length blk \<le> 7168" by (simp add: len)
  have "build_packet (load_block waveform s) (of_nat (unat (current_block s))) (of_nat k)
          = Inr (chunk_frame (unat (current_block s)) cs blk k)"
    using a assms(2,3) b d c assms(4) [folded blk_def] by (rule build_packet_chunk_frame)
  then show ?thesis by (simp add: blk_def)
qed

section \<open>The claims\<close>

text \<open>
  C1. The claim: a raw block (38 header bytes and 7128 sample bytes, 7166 bytes),
  chunked at any payload size from 1 to 244 and fed in order to a started session,
  yields one on-waveform callback with \<open>is_compressed = false\<close>. The receiver does
  reassemble the block, for every such block and chunk size. But it infers the encoding
  from \<open>size < BLOCK_SIZE = 7168\<close>, so the 7166 bytes go to the compressed decoder:
  the callback, if the sample bytes happen to inflate, reports \<open>is_compressed = true\<close>,
  and no callback with \<open>is_compressed = false\<close> is ever made. The raw decoder itself
  accepts 7166 bytes, and 7166 is what the sender's raw path produces
  (\<open>loaded_block_packet\<close>).
\<close>

theorem raw_block_taken_as_compressed:
  assumes "length blk = 7166" and "1 \<le> cs" and "cs \<le> 244" and "b < 1800"
    and "waveform_callback s"
  shows "\<exists>calls s'.
           feed_chunks inflate clock (transfer_session_start t0 s) (chunk_frames b cs blk) = Inr (calls, s')
         \<and> received_blocks s' (of_nat b) = Some blk
         \<and> filter is_waveform_call calls =
             (case process_compressed_block inflate blk of
                None \<Rightarrow> []
              | Some waveform \<Rightarrow> [WaveformCallback waveform True])
         \<and> (\<forall>waveform. WaveformCallback waveform False \<notin> set calls)"
proof -
  have ne: "blk \<noteq> []" using assms(1) by auto
  have cc: "chunk_count cs blk \<le> 65535"
    using chunk_count_le [OF assms(2), of blk] assms(1,3) by simp
  have cs: "cs \<le> 65535" using assms(3) by simp
  have st: "block_chunks (transfer_session_start t0 s) (of_nat b) = None"
    and wc: "waveform_callback (transfer_session_start t0 s)"
    using assms(5) by (simp_all add: transfer_session_start_def)
  have dec: "decode_block inflate blk = (True, process_compressed_block inflate blk)"
    using assms(1) by (simp add: decode_block_def BLOCK_SIZE_def)
  from feed_chunk_frames [OF assms(4) assms(2) cs ne cc st, of inflate clock]
  obtain calls s' where
    run: "feed_chunks inflate clock (transfer_session_start t0 s) (chunk_frames b cs blk) = Inr (calls, s')"
    and rb: "received_blocks s' (of_nat b) = Some blk"
    and wf: "filter is_waveform_call calls =
             (case process_compressed_block inflate blk of
                None \<Rightarrow> []
              | Some waveform \<Rightarrow> [WaveformCallback waveform True])"
    unfolding dec using wc by (auto split: option.splits)
  have "WaveformCallback waveform False \<notin> set calls" for waveform
  proof
    assume "WaveformCallback waveform False \<in> set calls"
    then have "WaveformCallback waveform False \<in> set (filter is_waveform_call calls)" by simp
    then show False unfolding wf by (auto split: option.splits)
  qed
  with run rb wf show ?thesis by blast
qed

text \<open>The theorem at block 0 of 7166 zero bytes, chunked at 244 bytes.\<close>

theorem raw_block_taken_as_compressed_witness:
  "\<forall>inflate clock t0.
      length (replicate 7166 (0 :: u8)) = 7166 \<and> (1 :: nat) \<le> 244 \<and> (244 :: nat) \<le> 244
    \<and> (0 :: nat) < 1800
    \<and> waveform_callback (transfer_session_create\<lparr>waveform_callback := True\<rparr>)
    \<and> (\<exists>calls s'.
           feed_chunks inflate clock
             (transfer_session_start t0 (transfer_session_create\<lparr>waveform_callback := True\<rparr>))
             (chunk_frames 0 244 (replicate 7166 0)) = Inr (calls, s')
         \<and> received_blocks s' 0 = Some (replicate 7166 0)
         \<and> filter is_waveform_call calls =
             (case process_compressed_block inflate (replicate 7166 0) of
                None \<Rightarrow> []
              | Some waveform \<Rightarrow> [WaveformCallback waveform True])
         \<and> (\<forall>waveform. WaveformCallback waveform False \<notin> set calls))"
proof (intro allI)
  fix inflate :: "u8 list \<Rightarrow> u8 list option" and clock :: "nat \<Rightarrow> time_point"
    and t0 :: time_point
  have h1: "length (replicate 7166 (0 :: u8)) = 7166" by simp
  have h2: "(1 :: nat) \<le> 244" and h3: "(244 :: nat) \<le> 244" and h4: "(0 :: nat) < 1800"
    by simp_all
  have h5: "waveform_callback (transfer_session_create\<lparr>waveform_callback := True\<rparr>)" by simp
  from raw_block_taken_as_compressed [OF h1 h2 h3 h4 h5, of inflate clock t0]
  show "length (replicate 7166 (0 :: u8)) = 7166 \<and> (1 :: nat) \<le> 244 \<and> (244 :: nat) \<le> 244
    \<and> (0 :: nat) < 1800
    \<and> waveform_callback (transfer_session_create\<lparr>waveform_callback := True\<rparr>)
    \<and> (\<exists>calls s'.
           feed_chunks inflate clock
             (transfer_session_start t0 (transfer_session_create\<lparr>waveform_callback := True\<rparr>))
             (chunk_frames 0 244 (replicate 7166 0)) = Inr (calls, s')
         \<and> received_blocks s' 0 = Some (replicate 7166 0)
         \<and> filter is_waveform_call calls =
             (case process_compressed_block inflate (replicate 7166 0) of
                None \<Rightarrow> []
              | Some waveform \<Rightarrow> [WaveformCallback waveform True])
         \<and> (\<forall>waveform. WaveformCallback waveform False \<notin> set calls))"
    using h1 h5 by simp
qed

text \<open>
  C4. The claim: the payload extracted by \<open>process_chunk\<close> is
  \<open>bytes[12 .. 12 + chunk_size]\<close> clamped to the input length, so no byte outside the
  given buffer is read. The source does not clamp: a 12-byte notification for block 0
  whose \<open>chunk_size\<close> field is 1 passes both guards and the vector constructor then reads
  \<open>data[12]\<close>, one byte past the buffer.
\<close>

theorem process_chunk_reads_past_buffer:
  "transfer_session_process_chunk inflate now session [0, 0, 0, 0, 1, 0, 1, 0, 0, 0, 0, 0]
     = Inl BufferOverread"
  by (simp add: transfer_session_process_chunk_def chunk_block_number_def
        chunk_chunk_size_def chunk_total_chunks_def u16_le_def TOTAL_BLOCKS_def)

text \<open>
  C10, as the code has it. \<open>process_chunk\<close> does not consult \<open>is_active\<close> to accept,
  store, assemble or decode a chunk, nor to choose the callbacks: on a session whose flag
  is cleared it returns the same value, leaves the same maps and counters and invokes
  the same callbacks in the same order as on the session with the flag set, so \<open>stop()\<close>
  does not turn it into a no-op. The flag is read in one place, by
  \<open>transfer_session_get_stats\<close> on behalf of the progress callback: with the flag cleared
  the snapshot passed to that callback carries \<open>elapsed_seconds = 0\<close> and
  \<open>throughput_kbps = 0\<close>; the waveform, ACK and completion callbacks receive the same
  arguments either way. The second part runs it on a stopped session: a single-chunk raw
  block for block 19 is stored, assembled and decoded, and the waveform, ACK and progress
  callbacks are invoked.
\<close>

theorem process_chunk_on_stopped_session:
  "transfer_session_process_chunk inflate now (transfer_session_stop s) data =
     (case transfer_session_process_chunk inflate now s data of
        Inl f \<Rightarrow> Inl f
      | Inr (ok, calls, s') \<Rightarrow> Inr (ok, map stopped_view calls, transfer_session_stop s'))
   \<and>
   transfer_session_process_chunk inflate now
       (transfer_session_stop
          (transfer_session_create\<lparr>waveform_callback := True, progress_callback := True,
                                    ack_callback := True\<rparr>))
       ([19, 0, 0, 0, 0, 28, 1, 0, 0, 0, 0, 0] @ replicate 7168 0) =
     Inr (True,
          [WaveformCallback
             \<lparr>header = \<lparr>block_number = 0, timestamp_ms = 0, sample_rate_hz = 0,
                         sample_count = 0, trigger_sample = 0, pulse_freq_hz = 0,
                         temperature_cx10 = 0, gain_db = 0, crc32 = 0\<rparr>,
              samples = replicate 2376 0\<rparr> False,
           AckCallback 19,
           ProgressCallback \<lparr>blocks_received = 1, total_blocks = 1800,
                             stats_total_bytes_received = 7168,
                             stats_total_chunks_received = 1,
                             throughput_kbps = 0, progress_percent = 100 / 1800,
                             elapsed_seconds = 0\<rparr>],
          transfer_session_create\<lparr>waveform_callback := True, progress_callback := True,
                                   ack_callback := True,
                                   received_blocks := [19 \<mapsto> replicate 7168 0],
                                   total_bytes_received := 7168,
                                   total_chunks_received := 1\<rparr>)"
  (is "?general \<and> ?stopped_run")
proof
  show ?general
    by (simp add: transfer_session_process_chunk_def transfer_session_stop_def
          stored_chunks_is_active store_chunk_is_active complete_block_is_active
          split: prod.splits)
next
  show ?stopped_run
    by (simp add: transfer_session_process_chunk_def transfer_session_stop_def
          transfer_session_create_def chunk_block_number_def chunk_chunk_size_def
          chunk_total_chunks_def chunk_chunk_number_def u16_le_def TOTAL_BLOCKS_def
          stored_chunks_def store_chunk_def complete_block_def reassemble_block_def
          decode_block_def BLOCK_SIZE_def process_uncompressed_block_def
          WAVEFORM_HEADER_SIZE_def SAMPLES_PER_WAVEFORM_def unpack_24bit_samples_zero
          parse_waveform_header_zero Let_def transfer_session_get_stats_def ACK_INTERVAL_def)
qed

text \<open>
  The claim as stated (\<open>process_chunk\<close> never consults the active flag) fails for the
  argument of the progress callback. A session started at clock reading 0 receives a
  single-chunk raw block of 7168 zero bytes one second later: the snapshot reports
  \<open>elapsed_seconds = 1\<close> and \<open>throughput_kbps = 7.168\<close>. The same session, stopped before
  the chunk arrives, reports 0 for both.
\<close>

theorem stopped_session_reports_no_elapsed_time:
  "\<forall>inflate.
      transfer_session_process_chunk inflate 1000000000
        (transfer_session_start 0 (transfer_session_create\<lparr>progress_callback := True\<rparr>))
        ([0, 0, 0, 0, 0, 28, 1, 0, 0, 0, 0, 0] @ replicate 7168 0)
      = Inr (True,
             [ProgressCallback \<lparr>blocks_received = 1, total_blocks = 1800,
                                stats_total_bytes_received = 7168,
                                stats_total_chunks_received = 1,
                                throughput_kbps = 7168 / 1000, progress_percent = 100 / 1800,
                                elapsed_seconds = 1\<rparr>],
             transfer_session_create\<lparr>is_active := True, progress_callback := True,
                received_blocks := [0 \<mapsto> replicate 7168 0],
                total_bytes_received := 7168, total_chunks_received := 1\<rparr>)
    \<and> transfer_session_process_chunk inflate 1000000000
        (transfer_session_stop
           (transfer_session_start 0 (transfer_session_create\<lparr>progress_callback := True\<rparr>)))
        ([0, 0, 0, 0, 0, 28, 1, 0, 0, 0, 0, 0] @ replicate 7168 0)
      = Inr (True,
             [ProgressCallback \<lparr>blocks_received = 1, total_blocks = 1800,
                                stats_total_bytes_received = 7168,
                                stats_total_chunks_received = 1,
                                throughput_kbps = 0, progress_percent = 100 / 1800,
                                elapsed_seconds = 0\<rparr>],
             transfer_session_create\<lparr>progress_callback := True,
                received_blocks := [0 \<mapsto> replicate 7168 0],
                total_bytes_received := 7168, total_chunks_received := 1\<rparr>)"
  by (simp add: transfer_session_process_chunk_def transfer_session_stop_def
        transfer_session_start_def
        transfer_session_create_def chunk_block_number_def chunk_chunk_size_def
        chunk_total_chunks_def chunk_chunk_number_def u16_le_def TOTAL_BLOCKS_def
        stored_chunks_def store_chunk_def complete_block_def reassemble_block_def
        decode_block_def BLOCK_SIZE_def process_uncompressed_block_def
        WAVEFORM_HEADER_SIZE_def SAMPLES_PER_WAVEFORM_def unpack_24bit_samples_zero
        parse_waveform_header_zero Let_def transfer_session_get_stats_def ACK_INTERVAL_def
        duration_cast_milliseconds_def)

text \<open>
  C2. With \<open>ACK_INTERVAL = 20\<close>: when the sender, Active and not waiting, has a free
  credit and the stack accepts the last chunk of block 19, \<open>process_next_chunk\<close> emits
  that packet, moves to chunk 0 of block 20 and enters WaitingAck with the waiting flag
  set; from there every further call returns without emitting anything and without
  changing the state. For every ACK message (at least 7 bytes, command 3, block number
  \<open>b\<close> in bytes 1 and 2) and every state \<open>t\<close>: if \<open>b < last_acked_block\<close> the handler
  changes nothing; otherwise it sets \<open>last_acked_block = b + 1\<close> (in \<open>uint16_t\<close>) and, if
  the sender is waiting, clears the waiting flag and sets the state to Active, all other
  statics unchanged. After such an ACK at the barrier the sender sends again: the next
  \<open>process_next_chunk\<close> goes to \<open>send_chunk\<close> with chunk 0 of block 20.
\<close>

theorem ack_barrier_after_block_19:
  assumes "current_state s = TRANSFER_STATE_ACTIVE" and "\<not> waiting_for_ack s"
    and "current_block s = 19"
    and "0 <s notification_credits s"
    and "unat (current_chunk s) + 1 = unat (total_chunks_for_block s)"
    and "build_packet s 19 (current_chunk s) = Inr packet"
  shows "\<exists>s'. app_data_transfer_process_next_chunk waveform now WICED_BT_GATT_SUCCESS s
                = Inr (True, Some packet, s')
           \<and> current_state s' = TRANSFER_STATE_WAITING_ACK \<and> waiting_for_ack s'
           \<and> current_block s' = 20 \<and> current_chunk s' = 0
           \<and> last_acked_block s' = last_acked_block s
           \<and> (\<forall>now' status'. app_data_transfer_process_next_chunk waveform now' status' s'
                  = Inr (False, None, s'))
           \<and> (\<forall>now' conn msg t. 7 \<le> length msg \<and> msg ! 0 = CTRL_CMD_ACK \<longrightarrow>
                 app_data_transfer_control_write_handler waveform now' conn msg t =
                   (if last_acked_block t \<le> u16_le (msg ! 1) (msg ! 2)
                    then (if waiting_for_ack t
                          then t\<lparr>last_acked_block := u16_le (msg ! 1) (msg ! 2) + 1,
                                 waiting_for_ack := False,
                                 current_state := TRANSFER_STATE_ACTIVE\<rparr>
                          else t\<lparr>last_acked_block := u16_le (msg ! 1) (msg ! 2) + 1\<rparr>)
                    else t))
           \<and> (\<forall>now' conn msg now'' status.
                 7 \<le> length msg \<and> msg ! 0 = CTRL_CMD_ACK
                 \<and> last_acked_block s' \<le> u16_le (msg ! 1) (msg ! 2) \<longrightarrow>
                 app_data_transfer_process_next_chunk waveform now'' status
                     (app_data_transfer_control_write_handler waveform now' conn msg s') =
                   (case send_chunk now'' status 20 0
                           (app_data_transfer_control_write_handler waveform now' conn msg s') of
                      Inl f \<Rightarrow> Inl f
                    | Inr (sent, packet', t1) \<Rightarrow>
                        if \<not> sent then Inr (True, None, t1)
                        else Inr (True, packet', advance_after_send waveform t1)))"
proof -
  from send_chunk_success [OF assms(4), of "current_block s" "current_chunk s" packet now] assms(6) assms(3)
  obtain s1 where s1: "send_chunk now WICED_BT_GATT_SUCCESS (current_block s) (current_chunk s) s
        = Inr (True, Some packet, s1)"
     and keep: "current_state s1 = current_state s" "current_block s1 = current_block s"
         "current_chunk s1 = current_chunk s" "actual_chunk_size s1 = actual_chunk_size s"
         "current_block_size s1 = current_block_size s" "waiting_for_ack s1 = waiting_for_ack s"
         "last_acked_block s1 = last_acked_block s"
    by auto
  have tot: "total_chunks_for_block s1 = total_chunks_for_block s"
    using keep by (simp add: total_chunks_for_block_def)
  let ?s' = "advance_after_send waveform s1"
  have adv: "current_state ?s' = TRANSFER_STATE_WAITING_ACK \<and> waiting_for_ack ?s'
       \<and> current_block ?s' = 20 \<and> current_chunk ?s' = 0
       \<and> last_acked_block ?s' = last_acked_block s1"
    using assms(3,5) keep tot by (intro advance_last_chunk_19) simp_all
  have run: "app_data_transfer_process_next_chunk waveform now WICED_BT_GATT_SUCCESS s
               = Inr (True, Some packet, ?s')"
    using assms(1,2,3) s1
    by (simp add: app_data_transfer_process_next_chunk_def SENDER_TOTAL_BLOCKS_def)
  have quiet: "app_data_transfer_process_next_chunk waveform now' status' ?s' = Inr (False, None, ?s')"
    for now' status'
    using adv by (simp add: app_data_transfer_process_next_chunk_def)
  have resume: "app_data_transfer_process_next_chunk waveform now'' status
                     (app_data_transfer_control_write_handler waveform now' conn msg ?s') =
                   (case send_chunk now'' status 20 0
                           (app_data_transfer_control_write_handler waveform now' conn msg ?s') of
                      Inl f \<Rightarrow> Inl f
                    | Inr (sent, packet', t1) \<Rightarrow>
                        if \<not> sent then Inr (True, None, t1)
                        else Inr (True, packet', advance_after_send waveform t1))"
    if "7 \<le> length msg" and "msg ! 0 = CTRL_CMD_ACK"
      and "last_acked_block ?s' \<le> u16_le (msg ! 1) (msg ! 2)"
    for now' conn msg now'' status
  proof -
    let ?t = "app_data_transfer_control_write_handler waveform now' conn msg ?s'"
    have t: "?t = ?s'\<lparr>last_acked_block := u16_le (msg ! 1) (msg ! 2) + 1,
                      waiting_for_ack := False, current_state := TRANSFER_STATE_ACTIVE\<rparr>"
      using ack_write_effect [OF that(1,2), of waveform now' conn ?s'] that(3) adv by simp
    have "current_state ?t = TRANSFER_STATE_ACTIVE" and "\<not> waiting_for_ack ?t"
      and "current_block ?t = 20" and "current_chunk ?t = 0"
      unfolding t using adv by simp_all
    then show ?thesis
      using process_next_chunk_sends [of ?t waveform now'' status]
      by (simp add: SENDER_TOTAL_BLOCKS_def)
  qed
  show ?thesis
    using run adv keep(7) quiet ack_write_effect resume
    by (intro exI [of _ ?s']) simp
qed

text \<open>
  The theorem at the example state: chunk 29 of block 19 goes out and the sender waits;
  ACK(19) clears the flag with \<open>last_acked_block = 20\<close>, the next call emits chunk 0 of
  block 20, and a later ACK(18) is ignored.
\<close>

theorem ack_barrier_after_block_19_witness:
  "current_state barrier_example = TRANSFER_STATE_ACTIVE \<and> \<not> waiting_for_ack barrier_example
   \<and> current_block barrier_example = 19
   \<and> 0 <s notification_credits barrier_example
   \<and> unat (current_chunk barrier_example) + 1 = unat (total_chunks_for_block barrier_example)
   \<and> build_packet barrier_example 19 (current_chunk barrier_example)
       = Inr ([19, 0, 29, 0, 90, 0, 30, 0, 254, 27, 0, 0] @ replicate 90 0)
   \<and> (\<exists>s'. app_data_transfer_process_next_chunk (\<lambda>b i. 0) 1000 WICED_BT_GATT_SUCCESS barrier_example
                = Inr (True, Some ([19, 0, 29, 0, 90, 0, 30, 0, 254, 27, 0, 0] @ replicate 90 0), s')
           \<and> current_state s' = TRANSFER_STATE_WAITING_ACK \<and> waiting_for_ack s'
           \<and> current_block s' = 20 \<and> current_chunk s' = 0 \<and> last_acked_block s' = 0
           \<and> app_data_transfer_process_next_chunk (\<lambda>b i. 0) 1015 WICED_BT_GATT_SUCCESS s'
                = Inr (False, None, s')
           \<and> app_data_transfer_control_write_handler (\<lambda>b i. 0) 1020 1 [3, 19, 0, 0, 0, 0, 0] s'
                = s'\<lparr>last_acked_block := 20, waiting_for_ack := False,
                     current_state := TRANSFER_STATE_ACTIVE\<rparr>
           \<and> (\<exists>t'. app_data_transfer_process_next_chunk (\<lambda>b i. 0) 1030 WICED_BT_GATT_SUCCESS
                      (app_data_transfer_control_write_handler (\<lambda>b i. 0) 1020 1
                         [3, 19, 0, 0, 0, 0, 0] s')
                    = Inr (True, Some ([20, 0, 0, 0, 244, 0, 30, 0, 254, 27, 0, 0] @ replicate 244 0), t'))
           \<and> app_data_transfer_control_write_handler (\<lambda>b i. 0) 1040 1 [3, 18, 0, 0, 0, 0, 0]
                (s'\<lparr>last_acked_block := 20, waiting_for_ack := False,
                    current_state := TRANSFER_STATE_ACTIVE\<rparr>)
              = s'\<lparr>last_acked_block := 20, waiting_for_ack := False,
                   current_state := TRANSFER_STATE_ACTIVE\<rparr>)"
proof -
  let ?p = "[19, 0, 29, 0, 90, 0, 30, 0, 254, 27, 0, 0] @ replicate 90 (0 :: u8)"
  let ?w = "\<lambda>(b :: u16) (i :: nat). (0 :: u8)"
  have h1: "current_state barrier_example = TRANSFER_STATE_ACTIVE"
    and h2: "\<not> waiting_for_ack barrier_example"
    and h3: "current_block barrier_example = 19"
    and h4: "0 <s notification_credits barrier_example"
    by (simp_all add: barrier_example_def load_block_def generate_block_data_def sender_boot_def
          word_sless_alt)
  have h5: "unat (current_chunk barrier_example) + 1 = unat (total_chunks_for_block barrier_example)"
    by (simp add: barrier_example_def load_block_def generate_block_data_def sender_boot_def
          total_chunks_for_block_def SIZEOF_WAVEFORM_BLOCK_HEADER_def WAVEFORM_RAW_DATA_SIZE_def)
  have h6: "build_packet barrier_example 19 (current_chunk barrier_example) = Inr ?p"
    by (simp add: barrier_example_def load_block_def generate_block_data_def sender_boot_def
          build_packet_def this_chunk_size_def chunk_offset_def total_chunks_for_block_def
          SIZEOF_WAVEFORM_BLOCK_HEADER_def WAVEFORM_RAW_DATA_SIZE_def BLOCK_SIZE_MAX_def
          chunk_header_bytes_def u16_bytes_def map_replicate_const del: upt_rec_numeral)
  from ack_barrier_after_block_19 [OF h1 h2 h3 h4 h5 h6, of ?w 1000]
  obtain s' where run: "app_data_transfer_process_next_chunk ?w 1000 WICED_BT_GATT_SUCCESS barrier_example
                = Inr (True, Some ?p, s')"
    and st: "current_state s' = TRANSFER_STATE_WAITING_ACK" "waiting_for_ack s'" "current_block s' = 20"
      "current_chunk s' = 0" "last_acked_block s' = last_acked_block barrier_example"
    and quiet: "\<And>now' status'. app_data_transfer_process_next_chunk ?w now' status' s'
                  = Inr (False, None, s')"
    and ack: "\<And>now' conn msg t. 7 \<le> length msg \<and> msg ! 0 = CTRL_CMD_ACK \<longrightarrow>
                 app_data_transfer_control_write_handler ?w now' conn msg t =
                   (if last_acked_block t \<le> u16_le (msg ! 1) (msg ! 2)
                    then (if waiting_for_ack t
                          then t\<lparr>last_acked_block := u16_le (msg ! 1) (msg ! 2) + 1,
                                 waiting_for_ack := False,
                                 current_state := TRANSFER_STATE_ACTIVE\<rparr>
                          else t\<lparr>last_acked_block := u16_le (msg ! 1) (msg ! 2) + 1\<rparr>)
                    else t)"
    and resume: "\<And>now' conn msg now'' status.
                 7 \<le> length msg \<and> msg ! 0 = CTRL_CMD_ACK
                 \<and> last_acked_block s' \<le> u16_le (msg ! 1) (msg ! 2) \<longrightarrow>
                 app_data_transfer_process_next_chunk ?w now'' status
                     (app_data_transfer_control_write_handler ?w now' conn msg s') =
                   (case send_chunk now'' status 20 0
                           (app_data_transfer_control_write_handler ?w now' conn msg s') of
                      Inl f \<Rightarrow> Inl f
                    | Inr (sent, packet', t1) \<Rightarrow>
                        if \<not> sent then Inr (True, None, t1)
                        else Inr (True, packet', advance_after_send ?w t1))"
    by blast
  have la: "last_acked_block s' = 0"
    using st(5) by (simp add: barrier_example_def load_block_def generate_block_data_def sender_boot_def)
  let ?t = "s'\<lparr>last_acked_block := 20, waiting_for_ack := False,
               current_state := TRANSFER_STATE_ACTIVE\<rparr>"
  from ack [of "[3, 19, 0, 0, 0, 0, 0]" 1020 1 s'] st(2) la
  have a19: "app_data_transfer_control_write_handler ?w 1020 1 [3, 19, 0, 0, 0, 0, 0] s' = ?t"
    by (simp add: CTRL_CMD_ACK_def u16_le_def)
  from ack [of "[3, 18, 0, 0, 0, 0, 0]" 1040 1 ?t]
  have a18: "app_data_transfer_control_write_handler ?w 1040 1 [3, 18, 0, 0, 0, 0, 0] ?t = ?t"
    by (simp add: CTRL_CMD_ACK_def u16_le_def)
  have s'_eq: "s' = advance_after_send ?w
                  (barrier_example\<lparr>notification_credits := 1, notifications_queued := 1,
                      consecutive_send_successes := 1, consecutive_send_failures := 0\<rparr>)"
    using run h1 h2 h3 h4 h6
    by (simp add: app_data_transfer_process_next_chunk_def SENDER_TOTAL_BLOCKS_def send_chunk_def
          word_sle_eq word_sless_alt Let_def SUCCESS_THRESHOLD_def word_le_nat_alt
          barrier_example_def load_block_def generate_block_data_def sender_boot_def)
  have fields: "notification_credits s' = 1" "actual_chunk_size s' = 244"
      "current_block_size s' = 7166" "block_data s' = (\<lambda>i. 0)"
      "consecutive_send_successes s' = 1" "current_delay_ms s' = 30"
    unfolding s'_eq
    by (simp_all add: advance_after_send_def Let_def total_chunks_for_block_def
          barrier_example_def load_block_def generate_block_data_def sender_boot_def
          SIZEOF_WAVEFORM_BLOCK_HEADER_def WAVEFORM_RAW_DATA_SIZE_def SENDER_ACK_INTERVAL_def
          SENDER_TOTAL_BLOCKS_def)
  have bp: "build_packet ?t 20 0 = Inr ([20, 0, 0, 0, 244, 0, 30, 0, 254, 27, 0, 0] @ replicate 244 0)"
    using fields
    by (simp add: build_packet_def this_chunk_size_def chunk_offset_def total_chunks_for_block_def
          BLOCK_SIZE_MAX_def chunk_header_bytes_def u16_bytes_def map_replicate_const
          del: upt_rec_numeral)
  have sc: "\<exists>t1. send_chunk 1030 WICED_BT_GATT_SUCCESS 20 0 ?t
              = Inr (True, Some ([20, 0, 0, 0, 244, 0, 30, 0, 254, 27, 0, 0] @ replicate 244 0), t1)"
    using fields bp
    by (simp add: send_chunk_def word_sle_eq Let_def SUCCESS_THRESHOLD_def word_le_nat_alt)
  from resume [of "[3, 19, 0, 0, 0, 0, 0]" 1030 WICED_BT_GATT_SUCCESS 1020 1] la sc
  have go: "\<exists>t'. app_data_transfer_process_next_chunk ?w 1030 WICED_BT_GATT_SUCCESS
                      (app_data_transfer_control_write_handler ?w 1020 1 [3, 19, 0, 0, 0, 0, 0] s')
                    = Inr (True, Some ([20, 0, 0, 0, 244, 0, 30, 0, 254, 27, 0, 0] @ replicate 244 0), t')"
    unfolding a19 by (auto simp add: CTRL_CMD_ACK_def u16_le_def)
  have "app_data_transfer_process_next_chunk ?w 1000 WICED_BT_GATT_SUCCESS barrier_example
                = Inr (True, Some ?p, s')
           \<and> current_state s' = TRANSFER_STATE_WAITING_ACK \<and> waiting_for_ack s'
           \<and> current_block s' = 20 \<and> current_chunk s' = 0 \<and> last_acked_block s' = 0
           \<and> app_data_transfer_process_next_chunk ?w 1015 WICED_BT_GATT_SUCCESS s'
                = Inr (False, None, s')
           \<and> app_data_transfer_control_write_handler ?w 1020 1 [3, 19, 0, 0, 0, 0, 0] s' = ?t
           \<and> (\<exists>t'. app_data_transfer_process_next_chunk ?w 1030 WICED_BT_GATT_SUCCESS
                      (app_data_transfer_control_write_handler ?w 1020 1
                         [3, 19, 0, 0, 0, 0, 0] s')
                    = Inr (True, Some ([20, 0, 0, 0, 244, 0, 30, 0, 254, 27, 0, 0] @ replicate 244 0), t'))
           \<and> app_data_transfer_control_write_handler ?w 1040 1 [3, 18, 0, 0, 0, 0, 0] ?t = ?t"
    using run st(1-4) la quiet [of 1015 WICED_BT_GATT_SUCCESS] a19 go a18
    by (simp only: simp_thms)
  then show ?thesis
    by (intro conjI h1 h2 h3 h4 h5 h6) (rule exI [of _ s'])
qed

text \<open>
  C8. The claim: \<open>0 \<le> last_acked_block \<le> cur_block \<le> T\<close> in every reachable sender
  state, whatever block number an ACK carries. The handler accepts every block number
  that is not below \<open>last_acked_block\<close>: after notifications are enabled and START is
  written, ACK(100) sets \<open>last_acked_block = 101\<close> while \<open>current_block\<close> is still 0; after
  ACK(5000), a disconnect and a reconnect, the sender resumes at
  \<open>current_block = 5001\<close>, beyond the 1800 blocks.
\<close>

theorem ack_ahead_breaks_block_order:
  "(let s1 = app_data_transfer_cccd_write_handler 1 True (app_data_transfer_init sender_boot);
        s2 = app_data_transfer_control_write_handler waveform 0 1 [1, 0, 0, 0, 0, 0, 0] s1;
        s3 = app_data_transfer_control_write_handler waveform 5 1 [3, 100, 0, 0, 0, 0, 0] s2;
        s4 = app_data_transfer_control_write_handler waveform 6 1 [3, 136, 19, 0, 0, 0, 0] s3;
        s5 = snd (app_data_transfer_resume waveform 1 (app_data_transfer_pause s4))
    in current_state s2 = TRANSFER_STATE_ACTIVE
       \<and> current_block s3 = 0 \<and> last_acked_block s3 = 101
       \<and> \<not> last_acked_block s3 \<le> current_block s3
       \<and> last_acked_block s4 = 5001
       \<and> current_state s5 = TRANSFER_STATE_ACTIVE \<and> current_block s5 = 5001
       \<and> \<not> unat (current_block s5) \<le> SENDER_TOTAL_BLOCKS)"
  by (simp add: Let_def app_data_transfer_cccd_write_handler_def app_data_transfer_init_def
        reset_transfer_state_def sender_boot_def app_data_transfer_control_write_handler_def
        SIZEOF_CONTROL_MSG_def CTRL_CMD_START_def CTRL_CMD_STOP_def CTRL_CMD_ACK_def
        app_data_transfer_start_def load_block_def generate_block_data_def handle_ack_def
        u16_le_def app_data_transfer_pause_def app_data_transfer_resume_def
        SENDER_TOTAL_BLOCKS_def)


text \<open>
  C3. The compressed decode of the receiver, for every block and every behaviour of the
  zlib decoder: it fails on a block shorter than the 38-byte header, when the payload
  does not inflate, and unless the inflated size is exactly \<open>2 * 2376 = 4752\<close> bytes;
  otherwise the samples are the running sums of the 2376 little-endian signed 16-bit
  deltas from a zero seed, and the block fails iff the CRC-32 (reflected, polynomial
  \<open>0xEDB88320\<close>, initial value \<open>0xFFFFFFFF\<close>, final XOR \<open>0xFFFFFFFF\<close>) of their packed
  24-bit little-endian form differs from the little-endian 32-bit field at offset 30 of
  the header. The right-hand side is written with the definitions of the previous
  section only. \<open>spec_crc32_check_value\<close> gives the check value \<open>0xCBF43926\<close> of that
  CRC on the digits \<open>123456789\<close>, and \<open>sint_spec_sample\<close> shows that the sums fit the
  32-bit slot without wrapping.
\<close>

theorem compressed_decode_refines_spec:
  "process_compressed_block inflate block =
     (if length block < 38 then None
      else (case inflate (drop 38 block) of
              None \<Rightarrow> None
            | Some buf \<Rightarrow>
                if length buf \<noteq> 2 * 2376 then None
                else if spec_crc32 (spec_pack_24bit (spec_samples buf)) \<noteq> spec_field block 30 4
                then None
                else Some \<lparr>header = spec_header block,
                           samples = map of_int (spec_samples buf)\<rparr>))"
proof -
  have len: "length (spec_samples buf) = 2376" for buf by (simp add: spec_samples_def)
  show ?thesis
    by (auto simp add: process_compressed_block_def decompress_waveform_def uncompress_def
          WAVEFORM_HEADER_SIZE_def SAMPLES_PER_WAVEFORM_def Let_def delta_loop_spec len
          crc_compare parse_waveform_header_spec simp flip: take_map split: option.splits)
qed


text \<open>
  C6, as the code has it. When an accepted chunk completes its block, the assembled
  bytes are decoded; the on-waveform callback is invoked exactly when the decode
  succeeds (and a callback is registered), and the partial entry and the expected count
  are erased. The block is recorded in \<open>received_blocks\<close> whatever the decode returned:
  a block whose decode fails is not reported but still counts as received.
\<close>

theorem failed_decode_still_recorded:
  assumes "12 \<le> length data" and "unat (chunk_block_number data) < TOTAL_BLOCKS"
    and "12 + unat (chunk_chunk_size data) \<le> length data"
    and "card (dom (stored_chunks s data)) = unat (chunk_total_chunks data)"
  shows "\<exists>calls s'.
           transfer_session_process_chunk inflate now s data = Inr (True, calls, s')
         \<and> block_chunks s' (chunk_block_number data) = None
         \<and> block_expected_chunks s' (chunk_block_number data) = None
         \<and> received_blocks s' (chunk_block_number data)
             = Some (reassemble_block (stored_chunks s data) (chunk_total_chunks data))
         \<and> filter is_waveform_call calls =
             (case decode_block inflate
                     (reassemble_block (stored_chunks s data) (chunk_total_chunks data)) of
                (is_compressed, Some waveform) \<Rightarrow>
                   if waveform_callback s then [WaveformCallback waveform is_compressed] else []
              | (is_compressed, None) \<Rightarrow> [])"
proof -
  let ?r = "complete_block inflate now (store_chunk s data) (chunk_block_number data)
              (stored_chunks s data) (chunk_total_chunks data)"
  have "transfer_session_process_chunk inflate now s data = Inr (True, fst ?r, snd ?r)"
    using assms by (simp add: process_chunk_accepted)
  then show ?thesis
    by (intro exI [of _ "fst ?r"] exI [of _ "snd ?r"])
       (simp add: complete_block_fields complete_block_waveform_calls store_chunk_fields
          split: prod.splits option.splits)
qed

text \<open>
  The theorem at a single-chunk block with an empty payload, fed to a started session:
  the decode fails, nothing is reported, and block 0 is recorded.
\<close>

theorem failed_decode_still_recorded_witness:
  "\<forall>inflate now t0.
     12 \<le> length [0, 0, 0, 0, 0, 0, 1, 0, 0, 0, 0, 0 :: u8]
   \<and> unat (chunk_block_number [0, 0, 0, 0, 0, 0, 1, 0, 0, 0, 0, 0]) < TOTAL_BLOCKS
   \<and> 12 + unat (chunk_chunk_size [0, 0, 0, 0, 0, 0, 1, 0, 0, 0, 0, 0])
        \<le> length [0, 0, 0, 0, 0, 0, 1, 0, 0, 0, 0, 0 :: u8]
   \<and> card (dom (stored_chunks (transfer_session_start t0 transfer_session_create)
                    [0, 0, 0, 0, 0, 0, 1, 0, 0, 0, 0, 0]))
        = unat (chunk_total_chunks [0, 0, 0, 0, 0, 0, 1, 0, 0, 0, 0, 0])
   \<and> (\<exists>calls s'.
          transfer_session_process_chunk inflate now (transfer_session_start t0 transfer_session_create)
             [0, 0, 0, 0, 0, 0, 1, 0, 0, 0, 0, 0] = Inr (True, calls, s')
        \<and> block_chunks s' 0 = None
        \<and> received_blocks s' 0 = Some []
        \<and> filter is_waveform_call calls = [])"
proof (intro allI)
  fix inflate :: "u8 list \<Rightarrow> u8 list option" and now t0 :: time_point
  let ?d = "[0, 0, 0, 0, 0, 0, 1, 0, 0, 0, 0, 0 :: u8]"
  let ?s = "transfer_session_start t0 transfer_session_create"
  have h1: "12 \<le> length ?d" by simp
  have h2: "unat (chunk_block_number ?d) < TOTAL_BLOCKS"
    by (simp add: chunk_block_number_def u16_le_def TOTAL_BLOCKS_def)
  have h3: "12 + unat (chunk_chunk_size ?d) \<le> length ?d"
    by (simp add: chunk_chunk_size_def u16_le_def)
  have h4: "card (dom (stored_chunks ?s ?d)) = unat (chunk_total_chunks ?d)"
    by (simp add: stored_chunks_def transfer_session_start_def chunk_block_number_def
          chunk_total_chunks_def u16_le_def)
  have bn: "chunk_block_number ?d = 0" by (simp add: chunk_block_number_def u16_le_def)
  have blk: "reassemble_block (stored_chunks ?s ?d) (chunk_total_chunks ?d) = []"
    by (simp add: reassemble_block_def stored_chunks_def transfer_session_start_def
          chunk_block_number_def chunk_total_chunks_def chunk_chunk_number_def
          chunk_chunk_size_def u16_le_def)
  have dec: "decode_block inflate [] = (True, None)"
    by (simp add: decode_block_def BLOCK_SIZE_def process_compressed_block_def
          WAVEFORM_HEADER_SIZE_def)
  from failed_decode_still_recorded [OF h1 h2 h3 h4, of inflate now]
  show "12 \<le> length ?d \<and> unat (chunk_block_number ?d) < TOTAL_BLOCKS
     \<and> 12 + unat (chunk_chunk_size ?d) \<le> length ?d
     \<and> card (dom (stored_chunks ?s ?d)) = unat (chunk_total_chunks ?d)
     \<and> (\<exists>calls s'. transfer_session_process_chunk inflate now ?s ?d = Inr (True, calls, s')
        \<and> block_chunks s' 0 = None \<and> received_blocks s' 0 = Some []
        \<and> filter is_waveform_call calls = [])"
    using h1 h2 h3 h4 by (simp add: bn blk dec) blast
qed

text \<open>
  The claim as stated (a block whose decode fails is not added to the completed set)
  fails at that input: the empty block is classified as compressed, its decode fails
  for want of a header, and \<open>received_blocks\<close> holds block 0 afterwards.
\<close>

theorem failed_decode_in_completed_set:
  "\<forall>inflate now t0.
      decode_block inflate [] = (True, None)
    \<and> transfer_session_process_chunk inflate now (transfer_session_start t0 transfer_session_create)
         [0, 0, 0, 0, 0, 0, 1, 0, 0, 0, 0, 0]
       = Inr (True, [],
              (transfer_session_start t0 transfer_session_create)
                \<lparr>is_active := True, received_blocks := [0 \<mapsto> []], total_chunks_received := 1\<rparr>)"
  by (simp add: transfer_session_process_chunk_def transfer_session_start_def
        transfer_session_create_def chunk_block_number_def chunk_chunk_size_def
        chunk_total_chunks_def chunk_chunk_number_def u16_le_def TOTAL_BLOCKS_def
        stored_chunks_def store_chunk_def complete_block_def reassemble_block_def
        decode_block_def BLOCK_SIZE_def process_compressed_block_def
        WAVEFORM_HEADER_SIZE_def Let_def ACK_INTERVAL_def)

text \<open>
  C7, as the code has it. Feeding an accepted chunk a second time leaves
  \<open>received_blocks\<close> as the first feed left it, whatever the clock reads at the two
  calls, but both counters advance on every feed: \<open>total_chunks_received\<close> by one and \<open>total_bytes_received\<close> by \<open>chunk_size\<close>.
  The second feed invokes no callback unless the chunk alone makes up its block
  (\<open>total_chunks = 1\<close>); then the block is assembled and decoded again and the
  on-waveform callback is invoked as in the first feed.
\<close>

theorem second_feed_counts_again:
  assumes "12 \<le> length data" and "unat (chunk_block_number data) < TOTAL_BLOCKS"
    and "12 + unat (chunk_chunk_size data) \<le> length data"
  shows "\<exists>calls1 s1 calls2 s2.
           transfer_session_process_chunk inflate now s data = Inr (True, calls1, s1)
         \<and> transfer_session_process_chunk inflate now' s1 data = Inr (True, calls2, s2)
         \<and> received_blocks s2 = received_blocks s1
         \<and> total_chunks_received s2 = total_chunks_received s1 + 1
         \<and> total_bytes_received s2 = total_bytes_received s1 + ucast (chunk_chunk_size data)
         \<and> (if chunk_total_chunks data = 1
             then filter is_waveform_call calls2 = filter is_waveform_call calls1
             else calls2 = [])"
proof -
  let ?bn = "chunk_block_number data" and ?t = "chunk_total_chunks data"
  let ?one = "[chunk_chunk_number data \<mapsto> take (unat (chunk_chunk_size data)) (drop 12 data)]"
  show ?thesis
  proof (cases "card (dom (stored_chunks s data)) = unat ?t")
    case complete: True
    let ?s1 = "snd (complete_block inflate now (store_chunk s data) ?bn (stored_chunks s data) ?t)"
    let ?c1 = "fst (complete_block inflate now (store_chunk s data) ?bn (stored_chunks s data) ?t)"
    have first: "transfer_session_process_chunk inflate now s data = Inr (True, ?c1, ?s1)"
      using assms complete by (rule process_chunk_completes)
    have none: "block_chunks ?s1 ?bn = None" by (simp add: complete_block_fields)
    have st2: "stored_chunks ?s1 data = ?one" using none by (rule stored_chunks_fresh)
    show ?thesis
    proof (cases "?t = 1")
      case True
      then have c1: "card (dom (stored_chunks s data)) = 1" using complete by simp
      obtain m where m: "stored_chunks s data
          = m(chunk_chunk_number data \<mapsto> take (unat (chunk_chunk_size data)) (drop 12 data))"
        using stored_chunks_upd by blast
      have st1: "stored_chunks s data = ?one"
        unfolding m by (rule card_dom_upd_one) (use c1 m in simp)
      let ?s2 = "snd (complete_block inflate now' (store_chunk ?s1 data) ?bn ?one ?t)"
      let ?c2 = "fst (complete_block inflate now' (store_chunk ?s1 data) ?bn ?one ?t)"
      have "card (dom (stored_chunks ?s1 data)) = unat ?t"
        unfolding st2 using True by simp
      from process_chunk_completes [OF assms this, of inflate]
      have second: "transfer_session_process_chunk inflate now' ?s1 data = Inr (True, ?c2, ?s2)"
        unfolding st2 .
      have r: "received_blocks ?s2 = received_blocks ?s1"
        by (simp add: complete_block_fields store_chunk_fields st1)
      have c: "total_chunks_received ?s2 = total_chunks_received ?s1 + 1"
        and b: "total_bytes_received ?s2 = total_bytes_received ?s1 + ucast (chunk_chunk_size data)"
        by (simp_all add: complete_block_fields store_chunk_fields)
      have w: "filter is_waveform_call ?c2 = filter is_waveform_call ?c1"
        by (simp add: complete_block_waveform_calls complete_block_fields store_chunk_fields st1
              split: prod.splits option.splits)
      have "transfer_session_process_chunk inflate now s data = Inr (True, ?c1, ?s1)
          \<and> transfer_session_process_chunk inflate now' ?s1 data = Inr (True, ?c2, ?s2)
          \<and> received_blocks ?s2 = received_blocks ?s1
          \<and> total_chunks_received ?s2 = total_chunks_received ?s1 + 1
          \<and> total_bytes_received ?s2 = total_bytes_received ?s1 + ucast (chunk_chunk_size data)
          \<and> (if ?t = 1 then filter is_waveform_call ?c2 = filter is_waveform_call ?c1
               else ?c2 = [])"
        using first second r c b w True by (simp only: if_True simp_thms)
      then show ?thesis
        by (intro exI [where x = ?c1] exI [where x = ?s1] exI [where x = ?c2] exI [where x = ?s2])
    next
      case False
      then have "unat ?t \<noteq> 1" by (simp add: word_unat_eq_iff)
      then have "card (dom (stored_chunks ?s1 data)) \<noteq> unat ?t"
        unfolding st2 by simp
      from process_chunk_stores [OF assms this, of inflate]
      have second: "transfer_session_process_chunk inflate now' ?s1 data
                           = Inr (True, [], store_chunk ?s1 data)" .
      have "received_blocks (store_chunk ?s1 data) = received_blocks ?s1"
        and "total_chunks_received (store_chunk ?s1 data) = total_chunks_received ?s1 + 1"
        and "total_bytes_received (store_chunk ?s1 data)
               = total_bytes_received ?s1 + ucast (chunk_chunk_size data)"
        by (simp_all only: store_chunk_fields)
      then have "transfer_session_process_chunk inflate now s data = Inr (True, ?c1, ?s1)
          \<and> transfer_session_process_chunk inflate now' ?s1 data = Inr (True, [], store_chunk ?s1 data)
          \<and> received_blocks (store_chunk ?s1 data) = received_blocks ?s1
          \<and> total_chunks_received (store_chunk ?s1 data) = total_chunks_received ?s1 + 1
          \<and> total_bytes_received (store_chunk ?s1 data)
                = total_bytes_received ?s1 + ucast (chunk_chunk_size data)
          \<and> (if ?t = 1 then filter is_waveform_call [] = filter is_waveform_call ?c1
               else ([] :: callback_event list) = [])"
        using first second False by (simp only: if_False simp_thms)
      then show ?thesis
        by (intro exI [where x = ?c1] exI [where x = ?s1] exI [where x = "[]"]
                  exI [where x = "store_chunk ?s1 data"])
    qed
  next
    case partial: False
    let ?s1 = "store_chunk s data"
    have first: "transfer_session_process_chunk inflate now s data = Inr (True, [], ?s1)"
      using assms partial by (rule process_chunk_stores)
    have "card (dom (stored_chunks ?s1 data)) \<noteq> unat ?t"
      using partial by (simp add: stored_chunks_after_store)
    from process_chunk_stores [OF assms this, of inflate]
    have second: "transfer_session_process_chunk inflate now' ?s1 data = Inr (True, [], store_chunk ?s1 data)" .
    have "received_blocks (store_chunk ?s1 data) = received_blocks ?s1"
      and "total_chunks_received (store_chunk ?s1 data) = total_chunks_received ?s1 + 1"
      and "total_bytes_received (store_chunk ?s1 data)
             = total_bytes_received ?s1 + ucast (chunk_chunk_size data)"
      by (simp_all only: store_chunk_fields)
    then have "transfer_session_process_chunk inflate now s data = Inr (True, [], ?s1)
          \<and> transfer_session_process_chunk inflate now' ?s1 data = Inr (True, [], store_chunk ?s1 data)
          \<and> received_blocks (store_chunk ?s1 data) = received_blocks ?s1
          \<and> total_chunks_received (store_chunk ?s1 data) = total_chunks_received ?s1 + 1
          \<and> total_bytes_received (store_chunk ?s1 data)
                = total_bytes_received ?s1 + ucast (chunk_chunk_size data)
          \<and> (if ?t = 1 then filter is_waveform_call [] = filter is_waveform_call []
               else ([] :: callback_event list) = [])"
      using first second by (simp only: simp_thms if_cancel)
    then show ?thesis
      by (intro exI [where x = "[]"] exI [where x = ?s1] exI [where x = "[]"]
                exI [where x = "store_chunk ?s1 data"])
  qed
qed


text \<open>The theorem at the first chunk of a two-chunk block, fed twice to a started session.\<close>

theorem second_feed_counts_again_witness:
  "\<forall>inflate now now' t0.
      12 \<le> length [0, 0, 0, 0, 0, 0, 2, 0, 0, 0, 0, 0 :: u8]
    \<and> unat (chunk_block_number [0, 0, 0, 0, 0, 0, 2, 0, 0, 0, 0, 0]) < TOTAL_BLOCKS
    \<and> 12 + unat (chunk_chunk_size [0, 0, 0, 0, 0, 0, 2, 0, 0, 0, 0, 0])
         \<le> length [0, 0, 0, 0, 0, 0, 2, 0, 0, 0, 0, 0 :: u8]
    \<and> (\<exists>calls1 s1 calls2 s2.
           transfer_session_process_chunk inflate now (transfer_session_start t0 transfer_session_create)
              [0, 0, 0, 0, 0, 0, 2, 0, 0, 0, 0, 0] = Inr (True, calls1, s1)
         \<and> transfer_session_process_chunk inflate now' s1 [0, 0, 0, 0, 0, 0, 2, 0, 0, 0, 0, 0]
              = Inr (True, calls2, s2)
         \<and> received_blocks s2 = received_blocks s1
         \<and> total_chunks_received s2 = total_chunks_received s1 + 1
         \<and> total_bytes_received s2 = total_bytes_received s1
         \<and> calls2 = [])"
proof (intro allI)
  fix inflate :: "u8 list \<Rightarrow> u8 list option" and now now' t0 :: time_point
  let ?d = "[0, 0, 0, 0, 0, 0, 2, 0, 0, 0, 0, 0 :: u8]"
  have h1: "12 \<le> length ?d" by simp
  have h2: "unat (chunk_block_number ?d) < TOTAL_BLOCKS"
    by (simp add: chunk_block_number_def u16_le_def TOTAL_BLOCKS_def)
  have h3: "12 + unat (chunk_chunk_size ?d) \<le> length ?d"
    by (simp add: chunk_chunk_size_def u16_le_def)
  have t: "chunk_total_chunks ?d = 2" and z: "chunk_chunk_size ?d = 0"
    by (simp_all add: chunk_total_chunks_def chunk_chunk_size_def u16_le_def)
  from second_feed_counts_again [OF h1 h2 h3, of inflate now "transfer_session_start t0 transfer_session_create" now']
  have "\<exists>calls1 s1 calls2 s2.
           transfer_session_process_chunk inflate now (transfer_session_start t0 transfer_session_create)
              ?d = Inr (True, calls1, s1)
         \<and> transfer_session_process_chunk inflate now' s1 ?d = Inr (True, calls2, s2)
         \<and> received_blocks s2 = received_blocks s1
         \<and> total_chunks_received s2 = total_chunks_received s1 + 1
         \<and> total_bytes_received s2 = total_bytes_received s1
         \<and> calls2 = []"
    by (simp add: t z)
  with h1 h2 h3 show "12 \<le> length ?d \<and> unat (chunk_block_number ?d) < TOTAL_BLOCKS
    \<and> 12 + unat (chunk_chunk_size ?d) \<le> length ?d
    \<and> (\<exists>calls1 s1 calls2 s2.
           transfer_session_process_chunk inflate now (transfer_session_start t0 transfer_session_create)
              ?d = Inr (True, calls1, s1)
         \<and> transfer_session_process_chunk inflate now' s1 ?d = Inr (True, calls2, s2)
         \<and> received_blocks s2 = received_blocks s1
         \<and> total_chunks_received s2 = total_chunks_received s1 + 1
         \<and> total_bytes_received s2 = total_bytes_received s1
         \<and> calls2 = [])"
    by (intro conjI)
qed

text \<open>
  The claim as stated (counters and on-waveform count unchanged by the second feed)
  fails for a single-chunk raw block of 7168 zero bytes: each feed invokes the
  on-waveform callback, and the counters read 7168 bytes and 1 chunk after the first
  feed, 14336 bytes and 2 chunks after the second.
\<close>

theorem second_feed_is_counted_and_reported:
  "\<forall>inflate now now' t0.
      transfer_session_process_chunk inflate now
        (transfer_session_start t0 (transfer_session_create\<lparr>waveform_callback := True\<rparr>))
        ([0, 0, 0, 0, 0, 28, 1, 0, 0, 0, 0, 0] @ replicate 7168 0)
      = Inr (True, [WaveformCallback zero_waveform False],
             transfer_session_create\<lparr>is_active := True, start_time := t0, waveform_callback := True,
                received_blocks := [0 \<mapsto> replicate 7168 0],
                total_bytes_received := 7168, total_chunks_received := 1\<rparr>)
    \<and> transfer_session_process_chunk inflate now'
        (transfer_session_create\<lparr>is_active := True, start_time := t0, waveform_callback := True,
                received_blocks := [0 \<mapsto> replicate 7168 0],
                total_bytes_received := 7168, total_chunks_received := 1\<rparr>)
        ([0, 0, 0, 0, 0, 28, 1, 0, 0, 0, 0, 0] @ replicate 7168 0)
      = Inr (True, [WaveformCallback zero_waveform False],
             transfer_session_create\<lparr>is_active := True, start_time := t0, waveform_callback := True,
                received_blocks := [0 \<mapsto> replicate 7168 0],
                total_bytes_received := 14336, total_chunks_received := 2\<rparr>)"
  by (simp add: transfer_session_process_chunk_def transfer_session_start_def
        transfer_session_create_def chunk_block_number_def chunk_chunk_size_def
        chunk_total_chunks_def chunk_chunk_number_def u16_le_def TOTAL_BLOCKS_def
        stored_chunks_def store_chunk_def complete_block_def reassemble_block_def
        decode_block_def BLOCK_SIZE_def process_uncompressed_block_def
        WAVEFORM_HEADER_SIZE_def SAMPLES_PER_WAVEFORM_def unpack_24bit_samples_zero
        parse_waveform_header_zero Let_def transfer_session_get_stats_def ACK_INTERVAL_def
        zero_waveform_def)

text \<open>
  C9, as the code has it. \<open>stop()\<close> clears the active flag and nothing else: the
  partial-chunk map, the expected counts and the received blocks are what they were, so
  a chunk that arrives later is stored next to the chunks buffered before. The partial
  entries are discarded by the next \<open>start()\<close>.
\<close>

theorem stop_keeps_partials:
  "is_active (transfer_session_stop s) = False
   \<and> block_chunks (transfer_session_stop s) = block_chunks s
   \<and> block_expected_chunks (transfer_session_stop s) = block_expected_chunks s
   \<and> received_blocks (transfer_session_stop s) = received_blocks s
   \<and> stored_chunks (transfer_session_stop s) data = stored_chunks s data
   \<and> block_chunks (transfer_session_start t0 (transfer_session_stop s)) = Map.empty
   \<and> block_expected_chunks (transfer_session_start t0 (transfer_session_stop s)) = Map.empty"
  by (simp add: transfer_session_stop_def transfer_session_start_def stored_chunks_def)

text \<open>
  The claim as stated (the partial map is empty after \<open>stop()\<close>) fails after the first
  chunk of a two-chunk block: the entry for block 0 is still there.
\<close>

theorem stop_leaves_partial_entry:
  "\<forall>inflate now t0.
      transfer_session_process_chunk inflate now (transfer_session_start t0 transfer_session_create)
        [0, 0, 0, 0, 0, 0, 2, 0, 0, 0, 0, 0]
      = Inr (True, [],
             transfer_session_create\<lparr>is_active := True, start_time := t0, block_chunks := [0 \<mapsto> [0 \<mapsto> []]],
                block_expected_chunks := [0 \<mapsto> 2], total_chunks_received := 1\<rparr>)
    \<and> block_chunks
         (transfer_session_stop
            (transfer_session_create\<lparr>is_active := True, start_time := t0, block_chunks := [0 \<mapsto> [0 \<mapsto> []]],
                block_expected_chunks := [0 \<mapsto> 2], total_chunks_received := 1\<rparr>)) 0
        = Some [0 \<mapsto> []]
    \<and> block_chunks
         (transfer_session_stop
            (transfer_session_create\<lparr>is_active := True, start_time := t0, block_chunks := [0 \<mapsto> [0 \<mapsto> []]],
                block_expected_chunks := [0 \<mapsto> 2], total_chunks_received := 1\<rparr>))
        \<noteq> Map.empty"
proof (intro allI conjI)
  fix inflate :: "u8 list \<Rightarrow> u8 list option" and now t0 :: time_point
  show "transfer_session_process_chunk inflate now (transfer_session_start t0 transfer_session_create)
        [0, 0, 0, 0, 0, 0, 2, 0, 0, 0, 0, 0]
      = Inr (True, [],
             transfer_session_create\<lparr>is_active := True, start_time := t0, block_chunks := [0 \<mapsto> [0 \<mapsto> []]],
                block_expected_chunks := [0 \<mapsto> 2], total_chunks_received := 1\<rparr>)"
    by (simp add: transfer_session_process_chunk_def transfer_session_start_def
          transfer_session_create_def chunk_block_number_def chunk_chunk_size_def
          chunk_total_chunks_def chunk_chunk_number_def u16_le_def TOTAL_BLOCKS_def
          stored_chunks_def store_chunk_def)
  show partial: "block_chunks
         (transfer_session_stop
            (transfer_session_create\<lparr>is_active := True, start_time := t0, block_chunks := [0 \<mapsto> [0 \<mapsto> []]],
                block_expected_chunks := [0 \<mapsto> 2], total_chunks_received := 1\<rparr>)) 0
        = Some [0 \<mapsto> []]"
    by (simp add: transfer_session_stop_def transfer_session_create_def)
  show "block_chunks
         (transfer_session_stop
            (transfer_session_create\<lparr>is_active := True, start_time := t0, block_chunks := [0 \<mapsto> [0 \<mapsto> []]],
                block_expected_chunks := [0 \<mapsto> 2], total_chunks_received := 1\<rparr>))
        \<noteq> Map.empty"
    using partial by (metis option.distinct(1))
qed


text \<open>
  C5, as the code has it. For every sequence of notifications fed to a session after
  \<open>start()\<close>: the on-completion callback has been invoked (at least once) iff a
  completion callback is registered and the received set holds all \<open>T = 1800\<close> blocks.
  The code does not limit it to one invocation: every block that completes while the
  set is full invokes it again.
\<close>

theorem completion_iff_all_blocks_received:
  assumes "feed_chunks inflate clock (transfer_session_start t0 s) chunks = Inr (calls, s')"
  shows "(filter is_completion_call calls \<noteq> [])
           = (completion_callback s \<and> card (dom (received_blocks s')) = TOTAL_BLOCKS)"
proof -
  have e: "dom (received_blocks (transfer_session_start t0 s)) \<subseteq> {k. unat k < TOTAL_BLOCKS}"
    and c: "card (dom (received_blocks (transfer_session_start t0 s))) < TOTAL_BLOCKS"
    and cb: "completion_callback (transfer_session_start t0 s) = completion_callback s"
    by (simp_all add: transfer_session_start_def TOTAL_BLOCKS_def)
  from feed_completion [OF e assms] c cb show ?thesis by blast
qed

text \<open>
  The theorem at the run of 1800 empty single-chunk blocks 0 to 1799: the callback is
  invoked, and the received set has 1800 elements.
\<close>

theorem completion_iff_all_blocks_received_witness:
  "\<forall>inflate clock t0.
     feed_chunks inflate clock
        (transfer_session_start t0 (transfer_session_create\<lparr>completion_callback := True\<rparr>))
        (map empty_block_chunk [0..<1800])
      = Inr ([CompletionCallback \<lparr>blocks_received = 1800, total_blocks = 1800,
                 stats_total_bytes_received = 0, stats_total_chunks_received = 1800,
                 throughput_kbps = 0, progress_percent = 100, elapsed_seconds = 0\<rparr>],
             after_empty_blocks t0 1800 1800)
   \<and> completion_callback (transfer_session_create\<lparr>completion_callback := True\<rparr>)
   \<and> card (dom (received_blocks (after_empty_blocks t0 1800 1800))) = TOTAL_BLOCKS"
proof (intro allI conjI)
  fix inflate :: "u8 list \<Rightarrow> u8 list option" and clock :: "nat \<Rightarrow> time_point"
    and t0 :: time_point
  have s0: "transfer_session_start t0 (transfer_session_create\<lparr>completion_callback := True\<rparr>)
              = after_empty_blocks t0 0 0"
    by (simp add: transfer_session_start_def transfer_session_create_def after_empty_blocks_def)
  show run: "feed_chunks inflate clock
        (transfer_session_start t0 (transfer_session_create\<lparr>completion_callback := True\<rparr>))
        (map empty_block_chunk [0..<1800])
      = Inr ([CompletionCallback \<lparr>blocks_received = 1800, total_blocks = 1800,
                 stats_total_bytes_received = 0, stats_total_chunks_received = 1800,
                 throughput_kbps = 0, progress_percent = 100, elapsed_seconds = 0\<rparr>],
             after_empty_blocks t0 1800 1800)"
    unfolding s0 using feed_empty_blocks [of 1800 inflate] by simp
  show cb: "completion_callback (transfer_session_create\<lparr>completion_callback := True\<rparr>)"
    by simp
  from completion_iff_all_blocks_received [OF run] cb
  show "card (dom (received_blocks (after_empty_blocks t0 1800 1800))) = TOTAL_BLOCKS"
    by simp
qed

text \<open>
  The claim as stated (at most one invocation per session) fails when block 0 arrives
  once more after that run: the duplicate completes again, the set still has 1800
  elements, and the callback is invoked a second time.
\<close>

theorem completion_invoked_twice:
  "\<forall>inflate clock t0.
     feed_chunks inflate clock
        (transfer_session_start t0 (transfer_session_create\<lparr>completion_callback := True\<rparr>))
        (map empty_block_chunk [0..<1800] @ [empty_block_chunk 0])
      = Inr ([CompletionCallback \<lparr>blocks_received = 1800, total_blocks = 1800,
                 stats_total_bytes_received = 0, stats_total_chunks_received = 1800,
                 throughput_kbps = 0, progress_percent = 100, elapsed_seconds = 0\<rparr>,
              CompletionCallback \<lparr>blocks_received = 1800, total_blocks = 1800,
                 stats_total_bytes_received = 0, stats_total_chunks_received = 1801,
                 throughput_kbps = 0, progress_percent = 100, elapsed_seconds = 0\<rparr>],
             after_empty_blocks t0 1800 1801)"
proof (intro allI)
  fix inflate :: "u8 list \<Rightarrow> u8 list option" and clock :: "nat \<Rightarrow> time_point"
    and t0 :: time_point
  have s0: "transfer_session_start t0 (transfer_session_create\<lparr>completion_callback := True\<rparr>)
              = after_empty_blocks t0 0 0"
    by (simp add: transfer_session_start_def transfer_session_create_def after_empty_blocks_def)
  have run: "feed_chunks inflate clock (after_empty_blocks t0 0 0) (map empty_block_chunk [0..<1800])
      = Inr ([CompletionCallback \<lparr>blocks_received = 1800, total_blocks = 1800,
                 stats_total_bytes_received = 0, stats_total_chunks_received = 1800,
                 throughput_kbps = 0, progress_percent = 100, elapsed_seconds = 0\<rparr>],
             after_empty_blocks t0 1800 1800)"
    using feed_empty_blocks [of 1800 inflate] by simp
  have dup: "transfer_session_process_chunk inflate (clock 1800) (after_empty_blocks t0 1800 1800)
               (empty_block_chunk 0) =
     Inr (True,
          (if (1800 :: nat) = 1800
           then [CompletionCallback \<lparr>blocks_received = 1800, total_blocks = 1800,
                    stats_total_bytes_received = 0,
                    stats_total_chunks_received = of_nat (Suc 1800),
                    throughput_kbps = 0, progress_percent = 100, elapsed_seconds = 0\<rparr>]
           else []),
          after_empty_blocks t0 1800 (Suc 1800))"
    by (intro empty_block_step received_set_dup) simp_all
  show "feed_chunks inflate clock
        (transfer_session_start t0 (transfer_session_create\<lparr>completion_callback := True\<rparr>))
        (map empty_block_chunk [0..<1800] @ [empty_block_chunk 0])
      = Inr ([CompletionCallback \<lparr>blocks_received = 1800, total_blocks = 1800,
                 stats_total_bytes_received = 0, stats_total_chunks_received = 1800,
                 throughput_kbps = 0, progress_percent = 100, elapsed_seconds = 0\<rparr>,
              CompletionCallback \<lparr>blocks_received = 1800, total_blocks = 1800,
                 stats_total_bytes_received = 0, stats_total_chunks_received = 1801,
                 throughput_kbps = 0, progress_percent = 100, elapsed_seconds = 0\<rparr>],
             after_empty_blocks t0 1800 1801)"
    unfolding s0 feed_chunks_append run using dup by simp
qed


end
